theory Spec2Isabelle
  imports Complex_Main
begin


section \<open>Data model\<close>

text \<open>
  The betting platform keeps three tables (users, events, bets) and one process-wide
  \<open>BettingService\<close> object. Python \<open>float\<close> columns and attributes are read here as
  exact rationals: every value the source writes (0.05, 1.1, 2.0, 3.0, 30) is a rational
  and the arithmetic of the source (\<open>+\<close>, \<open>-\<close>, \<open>*\<close>, \<open>/\<close>, \<open><\<close>, \<open>max\<close>) is taken without
  rounding. A \<open>datetime\<close> is a count of microseconds, the resolution of Python's
  \<open>datetime\<close>; \<open>datetime.utcnow()\<close> is an explicit argument of every function that
  calls it, one argument per call site.
\<close>

type_synonym pyfloat = rat
type_synonym datetime = int

definition timedelta_seconds :: "int \<Rightarrow> int" where
  "timedelta_seconds n = n * 1000000"

text \<open>
  Modelled from the spec: the declaration of the \<open>User\<close> entity (src/models/user.py) is
  not among the sources. The fields are those the spec lists for it and the ones the
  code reads: \<open>id\<close>, \<open>username\<close>, \<open>email\<close>, \<open>hashed_password\<close>, \<open>role\<close>, \<open>balance\<close>,
  \<open>total_deposited\<close>, \<open>is_active\<close>.
\<close>

record user =
  u_id :: int
  username :: string
  email :: string
  hashed_password :: string
  role :: string
  balance :: pyfloat
  total_deposited :: pyfloat
  user_is_active :: bool

text \<open>src/models/event.py, class \<open>Event\<close>; \<open>result\<close> is NULL until the event is resolved.\<close>

record event =
  e_id :: int
  name :: string
  sport_type :: string
  description :: string
  start_time :: datetime
  is_active :: bool
  is_finished :: bool
  result :: "string option"

text \<open>
  src/models/bet.py, class \<open>Bet\<close>; \<open>is_won\<close> is three-valued (None = pending) and
  \<open>resolved_at\<close> is NULL until resolution.
\<close>

record bet =
  b_id :: int
  user_id :: int
  event_id :: int
  amount :: pyfloat
  odds :: pyfloat
  predicted_outcome :: string
  is_won :: "bool option"
  payout :: pyfloat
  placed_at :: datetime
  resolved_at :: "datetime option"

text \<open>
  The server-assigned bookkeeping columns \<open>created_at\<close> and \<open>updated_at\<close> of the three
  tables are left out: no function modelled below reads them.
\<close>

record database =
  users :: "user list"
  events :: "event list"
  bets :: "bet list"

text \<open>
  \<open>BettingService.__init__\<close>: the lock table (a dict from user id to unlock time), the
  running deposit total and the bookie margin.
\<close>

record betting_service =
  locked_users :: "int \<rightharpoonup> datetime"
  total_service_deposit :: pyfloat
  bookie_margin :: pyfloat

definition BettingService_init :: betting_service where
  "BettingService_init =
     \<lparr>locked_users = Map.empty, total_service_deposit = 0, bookie_margin = 5 / 100\<rparr>"

text \<open>
  Python exceptions as values. Every \<open>raise\<close> of the betting service is a plain
  \<open>Exception(message)\<close>. \<open>ExpiredSignatureError\<close> and \<open>JWTClaimsError\<close> are the
  subclasses of \<open>JWTError\<close> that python-jose raises.
\<close>

datatype exn =
    Exception string
  | MultipleResultsFound
  | AttributeError string
  | NameError string
  | JWTError
  | ExpiredSignatureError
  | JWTClaimsError
  | HTTPException int string

section \<open>Insertion-ordered dictionaries\<close>

text \<open>
  A Python \<open>dict\<close> whose iteration order matters is an association list with distinct
  keys, in insertion order. \<open>d[k] = v\<close> overwrites in place or appends.
\<close>

definition dict_contains :: "('k \<times> 'v) list \<Rightarrow> 'k \<Rightarrow> bool" where
  "dict_contains d k = (k \<in> set (map fst d))"

definition dict_update :: "('k \<times> 'v) list \<Rightarrow> 'k \<Rightarrow> ('v \<Rightarrow> 'v) \<Rightarrow> ('k \<times> 'v) list" where
  "dict_update d k f = map (\<lambda>(k', v). if k' = k then (k', f v) else (k', v)) d"

definition dict_setitem :: "('k \<times> 'v) list \<Rightarrow> 'k \<Rightarrow> 'v \<Rightarrow> ('k \<times> 'v) list" where
  "dict_setitem d k v = (if dict_contains d k then dict_update d k (\<lambda>_. v) else d @ [(k, v)])"

section \<open>Dynamic odds\<close>

text \<open>The per-outcome statistics \<open>{"count": 0, "amount": 0.0}\<close>.\<close>

record outcome_stat =
  stat_count :: int
  stat_amount :: pyfloat

text \<open>
  One iteration of the loop of \<open>calculate_odds_based_on_bets\<close> (lines 64 to 69): create
  the entry of the bet's outcome if it is missing, then add one to its count and the
  bet's amount to its amount.
\<close>

definition add_bet_stat :: "(string \<times> outcome_stat) list \<Rightarrow> bet \<Rightarrow> (string \<times> outcome_stat) list" where
  "add_bet_stat outcome_stats b =
     (let outcome = predicted_outcome b;
          d = (if \<not> dict_contains outcome_stats outcome
               then dict_setitem outcome_stats outcome \<lparr>stat_count = 0, stat_amount = 0\<rparr>
               else outcome_stats)
      in dict_update d outcome
           (\<lambda>s. s\<lparr>stat_count := stat_count s + 1, stat_amount := stat_amount s + amount b\<rparr>))"

definition collect_outcome_stats :: "bet list \<Rightarrow> (string \<times> outcome_stat) list" where
  "collect_outcome_stats bs = foldl add_bet_stat [] bs"

text \<open>Lines 76 to 86: the odds of one outcome from its staked amount.\<close>

definition outcome_odd :: "betting_service \<Rightarrow> pyfloat \<Rightarrow> pyfloat \<Rightarrow> pyfloat" where
  "outcome_odd svc total_amount bet_amount =
     (if bet_amount > 0
      then (let base_odd = total_amount / bet_amount;
                adjusted_odd = base_odd * (1 - bookie_margin svc)
            in max adjusted_odd (11 / 10))
      else 2)"

text \<open>Lines 89 to 94: a standard outcome that has no odds yet gets its default.\<close>

definition backfill :: "(string \<times> pyfloat) list \<Rightarrow> string \<Rightarrow> pyfloat \<Rightarrow> (string \<times> pyfloat) list" where
  "backfill odds_d k v = (if \<not> dict_contains odds_d k then dict_setitem odds_d k v else odds_d)"

definition bets_of_event :: "database \<Rightarrow> int \<Rightarrow> bet list" where
  "bets_of_event db eid = filter (\<lambda>b. event_id b = eid) (bets db)"

definition calculate_odds_based_on_bets ::
  "betting_service \<Rightarrow> database \<Rightarrow> int \<Rightarrow> (string \<times> pyfloat) list" where
  "calculate_odds_based_on_bets svc db eid =
     (let bs = bets_of_event db eid in
      if bs = [] then [(''team_a_won'', 2), (''team_b_won'', 2), (''draw'', 3)]
      else
        (let outcome_stats = collect_outcome_stats bs;
             total_amount = sum_list (map (\<lambda>(outcome, s). stat_amount s) outcome_stats);
             odds0 = map (\<lambda>(outcome, s). (outcome, outcome_odd svc total_amount (stat_amount s)))
                       outcome_stats;
             odds1 = backfill odds0 ''team_a_won'' 2;
             odds2 = backfill odds1 ''team_b_won'' 2;
             odds3 = backfill odds2 ''draw'' 3
         in odds3))"

section \<open>The withdrawal lock\<close>

text \<open>
  Lines 101 to 107 of \<open>place_bet\<close> and, word for word, lines 193 to 199 of
  \<open>withdraw_money\<close>: an active lock raises, an expired one is deleted from the table.
  \<open>now\<close> is the value of \<open>datetime.utcnow()\<close> in the comparison.
\<close>

definition check_lock :: "betting_service \<Rightarrow> datetime \<Rightarrow> int \<Rightarrow> exn + betting_service" where
  "check_lock svc now uid =
     (case locked_users svc uid of
        None \<Rightarrow> Inr svc
      | Some unlock_time \<Rightarrow>
          if now < unlock_time
          then Inl (Exception ''User is temporarily locked due to withdrawal action'')
          else Inr (svc\<lparr>locked_users := (locked_users svc)(uid := None)\<rparr>))"

record withdrawal =
  status :: string
  lock_duration :: int

text \<open>
  \<open>withdraw_money(self, user_id, amount)\<close>, lines 190 to 207. \<open>t_check\<close> is the clock read
  at line 195, \<open>t_lock\<close> the clock read at line 203. The method has no session: storage
  is out of its reach.
\<close>

definition withdraw_money ::
  "betting_service \<Rightarrow> datetime \<Rightarrow> datetime \<Rightarrow> int \<Rightarrow> pyfloat \<Rightarrow> (exn + withdrawal) \<times> betting_service" where
  "withdraw_money svc t_check t_lock uid amt =
     (case check_lock svc t_check uid of
        Inl e \<Rightarrow> (Inl e, svc)
      | Inr svc1 \<Rightarrow>
          (Inr \<lparr>status = ''withdrawal_initiated'', lock_duration = 30\<rparr>,
           svc1\<lparr>locked_users := (locked_users svc1)(uid \<mapsto> t_lock + timedelta_seconds 30)\<rparr>))"

section \<open>Placing a bet\<close>

text \<open>
  \<open>Result.scalar_one_or_none()\<close>: no row is None, one row is that row, more rows raise.
\<close>

definition scalar_one_or_none :: "'a list \<Rightarrow> exn + 'a option" where
  "scalar_one_or_none rows =
     (case rows of [] \<Rightarrow> Inr None | [x] \<Rightarrow> Inr (Some x) | _ \<Rightarrow> Inl MultipleResultsFound)"

text \<open>The key the database gives a new row: one more than the largest key in use.\<close>

definition autoincrement :: "int list \<Rightarrow> int" where
  "autoincrement ids = fold max ids 0 + 1"

text \<open>
  \<open>place_bet(self, session, user_id, event_id, amount, predicted_outcome)\<close>, lines 98 to
  150. \<open>now\<close> is the clock read at line 103 and \<open>t_placed\<close> the server default of
  \<open>placed_at\<close>. Every \<open>raise\<close> comes before the first write to a row, so a failing call
  returns the storage it was given; the lock table may already have lost an expired
  entry. The commit updates the user's row by its primary key and inserts the bet.
\<close>

definition place_bet ::
  "betting_service \<Rightarrow> database \<Rightarrow> datetime \<Rightarrow> datetime \<Rightarrow> int \<Rightarrow> int \<Rightarrow> pyfloat \<Rightarrow> string
     \<Rightarrow> (exn + bet) \<times> betting_service \<times> database" where
  "place_bet svc db now t_placed uid eid amt outcome =
     (case check_lock svc now uid of
        Inl e \<Rightarrow> (Inl e, svc, db)
      | Inr svc1 \<Rightarrow>
     (case scalar_one_or_none (filter (\<lambda>u. u_id u = uid) (users db)) of
        Inl e \<Rightarrow> (Inl e, svc1, db)
      | Inr None \<Rightarrow> (Inl (Exception ''User not found''), svc1, db)
      | Inr (Some usr) \<Rightarrow>
     if balance usr < amt then (Inl (Exception ''Insufficient balance''), svc1, db)
     else
     (case scalar_one_or_none (filter (\<lambda>e. e_id e = eid) (events db)) of
        Inl e \<Rightarrow> (Inl e, svc1, db)
      | Inr None \<Rightarrow> (Inl (Exception ''Event is not active for betting''), svc1, db)
      | Inr (Some ev) \<Rightarrow>
     if \<not> is_active ev \<or> is_finished ev
     then (Inl (Exception ''Event is not active for betting''), svc1, db)
     else
     (let current_odds = calculate_odds_based_on_bets svc1 db eid in
      case map_of current_odds outcome of
        None \<Rightarrow> (Inl (Exception (''Invalid outcome: '' @ outcome)), svc1, db)
      | Some current_odd \<Rightarrow>
          (let b = \<lparr>b_id = autoincrement (map b_id (bets db)), user_id = uid, event_id = eid,
                    amount = amt, odds = current_odd, predicted_outcome = outcome, is_won = None,
                    payout = 0, placed_at = t_placed, resolved_at = None\<rparr>;
               usr' = usr\<lparr>balance := balance usr - amt,
                          total_deposited := total_deposited usr + amt\<rparr>;
               svc2 = svc1\<lparr>total_service_deposit := total_service_deposit svc1 + amt\<rparr>;
               db' = db\<lparr>users := map (\<lambda>u. if u_id u = uid then usr' else u) (users db),
                        bets := bets db @ [b]\<rparr>
           in (Inr b, svc2, db'))))))"

section \<open>Resolving an event\<close>

text \<open>
  The loop of \<open>resolve_event\<close>, lines 172 to 186, over the selected bets. \<open>clock i\<close> is
  the value of \<open>datetime.utcnow()\<close> in iteration \<open>i\<close>. \<open>bet.user\<close> is the user row whose
  key is \<open>bet.user_id\<close>; when there is none it is \<open>None\<close> and line 179 raises. The users
  are shared between the bets, so the rows are threaded through the loop; the running
  deposit total is an attribute of the service and keeps what the loop did to it also
  when the loop raises.
\<close>

fun resolve_bets ::
  "(nat \<Rightarrow> datetime) \<Rightarrow> string \<Rightarrow> nat \<Rightarrow> bet list \<Rightarrow> betting_service \<Rightarrow> user list
     \<Rightarrow> (exn + bet list \<times> user list) \<times> betting_service" where
  "resolve_bets clock actual_result i [] svc us = (Inr ([], us), svc)"
| "resolve_bets clock actual_result i (b # bs) svc us =
     (if predicted_outcome b = actual_result
      then
        (let p = amount b * odds b in
         if \<not> (\<exists>u \<in> set us. u_id u = user_id b)
         then (Inl (AttributeError ''balance''), svc)
         else
           (let us1 = map (\<lambda>u. if u_id u = user_id b then u\<lparr>balance := balance u + p\<rparr> else u) us;
                svc1 = svc\<lparr>total_service_deposit := total_service_deposit svc - p\<rparr>;
                b' = b\<lparr>is_won := Some True, payout := p, resolved_at := Some (clock i)\<rparr>
            in case resolve_bets clock actual_result (Suc i) bs svc1 us1 of
                 (Inl e, svc') \<Rightarrow> (Inl e, svc')
               | (Inr (bs', us'), svc') \<Rightarrow> (Inr (b' # bs', us'), svc')))
      else
        (let b' = b\<lparr>is_won := Some False, payout := 0, resolved_at := Some (clock i)\<rparr>
         in case resolve_bets clock actual_result (Suc i) bs svc us of
              (Inl e, svc') \<Rightarrow> (Inl e, svc')
            | (Inr (bs', us'), svc') \<Rightarrow> (Inr (b' # bs', us'), svc')))"

text \<open>
  The commit writes every selected bet back to its row: the rows of the event, in table
  order, take the loop's results in the same order; every other row stays.
\<close>

fun write_back :: "int \<Rightarrow> bet list \<Rightarrow> bet list \<Rightarrow> bet list" where
  "write_back eid [] upd = []"
| "write_back eid (b # bs) upd =
     (if event_id b = eid
      then (case upd of [] \<Rightarrow> b # write_back eid bs [] | b' # upd' \<Rightarrow> b' # write_back eid bs upd')
      else b # write_back eid bs upd)"

text \<open>
  \<open>resolve_event(self, session, event_id, actual_result)\<close>, lines 152 to 188. There is one
  commit, at the end: a call that raises leaves the storage as it was.
\<close>

definition resolve_event ::
  "betting_service \<Rightarrow> database \<Rightarrow> (nat \<Rightarrow> datetime) \<Rightarrow> int \<Rightarrow> string
     \<Rightarrow> (exn + unit) \<times> betting_service \<times> database" where
  "resolve_event svc db clock eid actual_result =
     (case scalar_one_or_none (filter (\<lambda>e. e_id e = eid) (events db)) of
        Inl e \<Rightarrow> (Inl e, svc, db)
      | Inr None \<Rightarrow> (Inl (Exception ''Event not found''), svc, db)
      | Inr (Some ev) \<Rightarrow>
          (let ev' = ev\<lparr>is_active := False, is_finished := True, result := Some actual_result\<rparr>
           in case resolve_bets clock actual_result 0 (bets_of_event db eid) svc (users db) of
                (Inl e, svc') \<Rightarrow> (Inl e, svc', db)
              | (Inr (bs', us'), svc') \<Rightarrow>
                  (Inr (), svc',
                   \<lparr>users = us',
                    events = map (\<lambda>e. if e_id e = eid then ev' else e) (events db),
                    bets = write_back eid (bets db) bs'\<rparr>)))"

section \<open>Sequences of engine calls\<close>

text \<open>
  The service object and the storage are the state of the process; a call of one of the
  three operations takes it to the next state, whether the call returns or raises.
\<close>

datatype call =
    PlaceBet datetime datetime int int pyfloat string
  | ResolveEvent "nat \<Rightarrow> datetime" int string
  | WithdrawMoney datetime datetime int pyfloat

fun step :: "betting_service \<times> database \<Rightarrow> call \<Rightarrow> betting_service \<times> database" where
  "step (svc, db) (PlaceBet now t_placed uid eid amt outcome) =
     snd (place_bet svc db now t_placed uid eid amt outcome)"
| "step (svc, db) (ResolveEvent clock eid actual_result) =
     snd (resolve_event svc db clock eid actual_result)"
| "step (svc, db) (WithdrawMoney t_check t_lock uid amt) =
     (snd (withdraw_money svc t_check t_lock uid amt), db)"

definition run :: "betting_service \<times> database \<Rightarrow> call list \<Rightarrow> betting_service \<times> database" where
  "run w cs = foldl step w cs"

section \<open>Token decoding and the authorization dependency\<close>

text \<open>
  src/services/auth_service.py and src/api/router.py. The claims of a token are JSON
  values; a JSON \<open>null\<close> is Python's \<open>None\<close>, so \<open>payload.get(k)\<close> is \<open>None\<close> both for a
  missing key and for a null value. \<open>jwt.decode\<close> belongs to python-jose, not to this
  repository: the call \<open>jwt.decode(token, SECRET_KEY, algorithms=[ALGORITHM])\<close> at the
  time of the request is the argument \<open>jwt_decode\<close>, which returns the payload or the
  exception the library raises.
\<close>

datatype json = JNull | JString string | JNumber int | JBool bool

definition payload_get :: "(string \<rightharpoonup> json) \<Rightarrow> string \<Rightarrow> json option" where
  "payload_get payload k =
     (case payload k of None \<Rightarrow> None | Some JNull \<Rightarrow> None | Some v \<Rightarrow> Some v)"

text \<open>\<open>except JWTError\<close> catches \<open>JWTError\<close> and its subclasses, nothing else.\<close>

fun is_JWTError :: "exn \<Rightarrow> bool" where
  "is_JWTError JWTError = True"
| "is_JWTError ExpiredSignatureError = True"
| "is_JWTError JWTClaimsError = True"
| "is_JWTError _ = False"

definition get_current_user_role ::
  "(string \<Rightarrow> exn + (string \<rightharpoonup> json)) \<Rightarrow> string \<Rightarrow> exn + json option" where
  "get_current_user_role jwt_decode token =
     (case jwt_decode token of
        Inl e \<Rightarrow> if is_JWTError e then Inr None else Inl e
      | Inr payload \<Rightarrow>
          (let username = payload_get payload ''sub'';
               user_role = payload_get payload ''role''
           in if username = None \<or> user_role = None then Inr None else Inr user_role))"

text \<open>
  \<open>get_current_user\<close>, router.py lines 23 to 36; \<open>token\<close> is \<open>credentials.credentials\<close>.
  The result is the dict \<open>{"role": user_role}\<close>.
\<close>

definition get_current_user ::
  "(string \<Rightarrow> exn + (string \<rightharpoonup> json)) \<Rightarrow> string \<Rightarrow> exn + (string \<times> json) list" where
  "get_current_user jwt_decode token =
     (case get_current_user_role jwt_decode token of
        Inl e \<Rightarrow> Inl e
      | Inr None \<Rightarrow> Inl (HTTPException 401 ''Could not validate credentials'')
      | Inr (Some user_role) \<Rightarrow> Inr [(''role'', user_role)])"

section \<open>The admin dashboard\<close>

text \<open>\<open>get_admin_analytics\<close>, betting_service.py lines 220 to 229.\<close>

record admin_analytics =
  a_bookie_margin :: pyfloat
  a_total_service_deposit :: pyfloat
  locked_users_count :: nat
  active_events_count :: int
  total_bets_placed :: int
  total_payouts :: int

definition get_admin_analytics :: "betting_service \<Rightarrow> admin_analytics" where
  "get_admin_analytics svc =
     \<lparr>a_bookie_margin = bookie_margin svc,
      a_total_service_deposit = total_service_deposit svc,
      locked_users_count = card (dom (locked_users svc)),
      active_events_count = 0, total_bets_placed = 0, total_payouts = 0\<rparr>"

record dashboard =
  total_users :: nat
  total_events :: nat
  total_bets :: nat
  total_user_balances :: pyfloat
  total_deposited_by_users :: pyfloat
  service_analytics :: admin_analytics

text \<open>SQL \<open>SUM\<close> over no rows is NULL; \<open>x or 0.0\<close> replaces \<open>None\<close> and zero by \<open>0.0\<close>.\<close>

definition sql_sum :: "pyfloat list \<Rightarrow> pyfloat option" where
  "sql_sum xs = (if xs = [] then None else Some (sum_list xs))"

definition or_zero :: "pyfloat option \<Rightarrow> pyfloat" where
  "or_zero v = (case v of None \<Rightarrow> 0 | Some x \<Rightarrow> if x = 0 then 0 else x)"

text \<open>
  The names that src/admin/dashboard.py binds at module level: its \<open>from ... import\<close>
  lines 1 to 9, \<open>router\<close>, and its six functions. A name that is neither there nor a
  builtin raises \<open>NameError\<close> when it is evaluated.
\<close>

definition dashboard_module_names :: "string list" where
  "dashboard_module_names =
     [''APIRouter'', ''Depends'', ''Dict'', ''List'', ''AsyncSession'', ''select'', ''func'',
      ''selectinload'', ''joinedload'', ''datetime'', ''timedelta'', ''AsyncSessionLocal'',
      ''User'', ''Event'', ''Bet'', ''betting_service'', ''router'', ''get_db'',
      ''get_admin_dashboard'', ''get_all_users'', ''get_all_events'', ''get_all_bets'',
      ''get_detailed_analytics'']"

definition load_name :: "string list \<Rightarrow> string \<Rightarrow> exn + unit" where
  "load_name names n = (if n \<in> set names then Inr () else Inl (NameError n))"

text \<open>
  \<open>get_admin_dashboard\<close>, dashboard.py lines 20 to 54. Its first statement, line 24,
  evaluates \<open>sqlalchemy.select(...)\<close>; the rest is what the body computes once that name
  is bound.
\<close>

definition dashboard_summary :: "betting_service \<Rightarrow> database \<Rightarrow> dashboard" where
  "dashboard_summary svc db =
     \<lparr>total_users = length (users db),
      total_events = length (events db),
      total_bets = length (bets db),
      total_user_balances = or_zero (sql_sum (map balance (users db))),
      total_deposited_by_users = or_zero (sql_sum (map total_deposited (users db))),
      service_analytics = get_admin_analytics svc\<rparr>"

definition get_admin_dashboard :: "betting_service \<Rightarrow> database \<Rightarrow> exn + dashboard" where
  "get_admin_dashboard svc db =
     (case load_name dashboard_module_names ''sqlalchemy'' of
        Inl e \<Rightarrow> Inl e
      | Inr _ \<Rightarrow> Inr (dashboard_summary svc db))"

text \<open>config.py, lines 22 to 24: the declared betting limits.\<close>

definition min_bet_amount :: pyfloat where "min_bet_amount = 1"
definition max_bet_amount :: pyfloat where "max_bet_amount = 10000"

section \<open>Double arithmetic\<close>

text \<open>
  A Python \<open>float\<close> is an IEEE 754 double: a sign, a significand of 53 bits and a power
  of two. An operation on doubles returns its exact result rounded to the nearest
  double, a tie going to the even significand. \<open>ieee_double\<close> is this rounding on the
  rationals: \<open>floor_log2 x\<close> is the exponent \<open>e\<close> with \<open>2^e \<le> x < 2^(e+1)\<close>, the doubles
  around \<open>x\<close> are the multiples of \<open>2^(e-52)\<close>, and \<open>x\<close> goes to the nearest of them. The
  range of the exponent (overflow above about 1.8e308, subnormal values below about
  2.2e-308) is not modelled.
\<close>

function bit_length :: "int \<Rightarrow> int" where
  "bit_length n = (if n \<le> 0 then 0 else 1 + bit_length (n div 2))"
  by pat_completeness auto
termination
  by (relation "measure nat") auto

declare bit_length.simps [simp del]

text \<open>\<open>bit_length n\<close> is Python's \<open>n.bit_length()\<close> for a positive \<open>n\<close>.\<close>

definition pow2 :: "int \<Rightarrow> rat" where
  "pow2 k = (if 0 \<le> k then 2 ^ nat k else 1 / 2 ^ nat (- k))"

definition floor_log2 :: "rat \<Rightarrow> int" where
  "floor_log2 x =
     (let (a, b) = quotient_of x;
          k = bit_length a - bit_length b
      in if pow2 k \<le> x then k else k - 1)"

definition round_half_even :: "rat \<Rightarrow> int" where
  "round_half_even y =
     (let f = \<lfloor>y\<rfloor>; d = y - of_int f
      in if d < 1 / 2 then f else if 1 / 2 < d then f + 1 else if even f then f else f + 1)"

definition round_positive :: "rat \<Rightarrow> rat" where
  "round_positive x =
     (let q = pow2 (floor_log2 x - 52) in of_int (round_half_even (x / q)) * q)"

definition ieee_double :: "rat \<Rightarrow> rat" where
  "ieee_double x =
     (if x = 0 then 0 else if x < 0 then - round_positive (- x) else round_positive x)"

text \<open>
  \<open>place_bet\<close> with the three float updates of lines 140, 141 and 144 rounded by \<open>rnd\<close>:
  with \<open>ieee_double\<close> this is the arithmetic the interpreter does; with the identity it
  is \<open>place_bet\<close>. The comparison of line 116 is exact on doubles. The odds are computed
  as in \<open>place_bet\<close>; with no bet on the event they are the three constants and no
  arithmetic is done for them.
\<close>

definition place_bet_rounded ::
  "(pyfloat \<Rightarrow> pyfloat) \<Rightarrow> betting_service \<Rightarrow> database \<Rightarrow> datetime \<Rightarrow> datetime \<Rightarrow> int \<Rightarrow> int
     \<Rightarrow> pyfloat \<Rightarrow> string \<Rightarrow> (exn + bet) \<times> betting_service \<times> database" where
  "place_bet_rounded rnd svc db now t_placed uid eid amt outcome =
     (case check_lock svc now uid of
        Inl e \<Rightarrow> (Inl e, svc, db)
      | Inr svc1 \<Rightarrow>
     (case scalar_one_or_none (filter (\<lambda>u. u_id u = uid) (users db)) of
        Inl e \<Rightarrow> (Inl e, svc1, db)
      | Inr None \<Rightarrow> (Inl (Exception ''User not found''), svc1, db)
      | Inr (Some usr) \<Rightarrow>
     if balance usr < amt then (Inl (Exception ''Insufficient balance''), svc1, db)
     else
     (case scalar_one_or_none (filter (\<lambda>e. e_id e = eid) (events db)) of
        Inl e \<Rightarrow> (Inl e, svc1, db)
      | Inr None \<Rightarrow> (Inl (Exception ''Event is not active for betting''), svc1, db)
      | Inr (Some ev) \<Rightarrow>
     if \<not> is_active ev \<or> is_finished ev
     then (Inl (Exception ''Event is not active for betting''), svc1, db)
     else
     (let current_odds = calculate_odds_based_on_bets svc1 db eid in
      case map_of current_odds outcome of
        None \<Rightarrow> (Inl (Exception (''Invalid outcome: '' @ outcome)), svc1, db)
      | Some current_odd \<Rightarrow>
          (let b = \<lparr>b_id = autoincrement (map b_id (bets db)), user_id = uid, event_id = eid,
                    amount = amt, odds = current_odd, predicted_outcome = outcome, is_won = None,
                    payout = 0, placed_at = t_placed, resolved_at = None\<rparr>;
               usr' = usr\<lparr>balance := rnd (balance usr - amt),
                          total_deposited := rnd (total_deposited usr + amt)\<rparr>;
               svc2 = svc1\<lparr>total_service_deposit := rnd (total_service_deposit svc1 + amt)\<rparr>;
               db' = db\<lparr>users := map (\<lambda>u. if u_id u = uid then usr' else u) (users db),
                        bets := bets db @ [b]\<rparr>
           in (Inr b, svc2, db'))))))"

section \<open>The stakes of an event, in the words of the spec\<close>

text \<open>
  The amount staked on one outcome and the total staked across all outcomes, as sums
  over the bets; the code computes them with a dictionary built in one pass.
\<close>

definition staked_on :: "bet list \<Rightarrow> string \<Rightarrow> pyfloat" where
  "staked_on bs k = sum_list (map amount (filter (\<lambda>b. predicted_outcome b = k) bs))"

definition total_staked :: "bet list \<Rightarrow> pyfloat" where
  "total_staked bs = sum_list (map amount bs)"


section \<open>Settlement, in the words of the spec\<close>

text \<open>
  A settled bet: won exactly when its prediction is the actual result, with payout
  amount times odds if won and 0 otherwise, and stamped with a resolution time. The
  winnings of a user are the payouts of that user's winning bets; the total payout is
  the sum over all winning bets.
\<close>

definition settled :: "string \<Rightarrow> bet \<Rightarrow> datetime \<Rightarrow> bet" where
  "settled actual_result b t =
     b\<lparr>is_won := Some (predicted_outcome b = actual_result),
       payout := (if predicted_outcome b = actual_result then amount b * odds b else 0),
       resolved_at := Some t\<rparr>"

definition winnings :: "bet list \<Rightarrow> string \<Rightarrow> int \<Rightarrow> pyfloat" where
  "winnings bs actual_result uid =
     sum_list (map (\<lambda>b. amount b * odds b)
       (filter (\<lambda>b. predicted_outcome b = actual_result \<and> user_id b = uid) bs))"

definition total_payout :: "bet list \<Rightarrow> string \<Rightarrow> pyfloat" where
  "total_payout bs actual_result =
     sum_list (map (\<lambda>b. amount b * odds b)
       (filter (\<lambda>b. predicted_outcome b = actual_result) bs))"

text \<open>An event is closed when it is inactive and finished (every row with that key is).\<close>

definition event_closed :: "database \<Rightarrow> int \<Rightarrow> bool" where
  "event_closed db eid =
     list_all (\<lambda>e. e_id e = eid \<longrightarrow> \<not> is_active e \<and> is_finished e) (events db)"

text \<open>
  A call that resolves the given event, and the storage without the bets of an event
  (what the storage would be had these bets never been placed).
\<close>

fun is_resolve_of :: "int \<Rightarrow> call \<Rightarrow> bool" where
  "is_resolve_of eid (ResolveEvent clock eid' actual_result) = (eid' = eid)"
| "is_resolve_of eid _ = False"

definition without_bets_of :: "database \<Rightarrow> int \<Rightarrow> database" where
  "without_bets_of db eid = db\<lparr>bets := filter (\<lambda>b. event_id b \<noteq> eid) (bets db)\<rparr>"

section \<open>Example data\<close>

text \<open>
  Users, an event and small storages on which the theorems below are run: \<open>alice\<close> has
  just registered (balance 100), \<open>bob\<close> has registered and deposited 300.
\<close>

definition alice :: user where
  "alice = \<lparr>u_id = 1, username = ''alice'', email = ''alice@example.com'',
            hashed_password = ''$2b$12$abc'', role = ''user'', balance = 100,
            total_deposited = 0, user_is_active = True\<rparr>"

definition derby :: event where
  "derby = \<lparr>e_id = 1, name = ''Football Match: Lions vs Tigers'', sport_type = ''football'',
            description = ''Upcoming football match between Lions and Tigers'',
            start_time = 3600000000, is_active = True, is_finished = False, result = None\<rparr>"

definition demo_db :: database where
  "demo_db = \<lparr>users = [alice], events = [derby], bets = []\<rparr>"


definition stake_a :: bet where
  "stake_a = \<lparr>b_id = 1, user_id = 1, event_id = 1, amount = 100, odds = 2,
              predicted_outcome = ''team_a_won'', is_won = None, payout = 0,
              placed_at = 10, resolved_at = None\<rparr>"

definition stake_b :: bet where
  "stake_b = \<lparr>b_id = 2, user_id = 2, event_id = 1, amount = 300, odds = 2,
              predicted_outcome = ''team_b_won'', is_won = None, payout = 0,
              placed_at = 20, resolved_at = None\<rparr>"

definition bob :: user where
  "bob = \<lparr>u_id = 2, username = ''bob'', email = ''bob@example.com'',
          hashed_password = ''$2b$12$def'', role = ''user'', balance = 400,
          total_deposited = 300, user_is_active = True\<rparr>"

definition start_db :: database where
  "start_db = \<lparr>users = [alice, bob], events = [derby], bets = []\<rparr>"

text \<open>
  The state after alice has staked 100 on team A and then bob 300 on team B, both at
  the odds 2.0 they were offered.
\<close>

definition odds_db :: database where
  "odds_db =
     \<lparr>users = [alice\<lparr>balance := 0, total_deposited := 100\<rparr>,
               bob\<lparr>balance := 100, total_deposited := 600\<rparr>],
      events = [derby], bets = [stake_a, stake_b]\<rparr>"

definition staked_svc :: betting_service where
  "staked_svc = BettingService_init\<lparr>total_service_deposit := 400\<rparr>"

definition lock_svc :: betting_service where
  "lock_svc = BettingService_init\<lparr>locked_users := [1 \<mapsto> 31000000]\<rparr>"



text \<open>A clock that ticks once per iteration.\<close>

definition demo_clock :: "nat \<Rightarrow> datetime" where
  "demo_clock i = 1000 + int i"

text \<open>The state after \<open>derby\<close> has been resolved as won by team A.\<close>

definition resolved_db :: database where
  "resolved_db =
     \<lparr>users = [alice\<lparr>balance := 200, total_deposited := 100\<rparr>,
               bob\<lparr>balance := 100, total_deposited := 600\<rparr>],
      events = [derby\<lparr>is_active := False, is_finished := True, result := Some ''team_a_won''\<rparr>],
      bets = [stake_a\<lparr>is_won := Some True, payout := 200, resolved_at := Some 1000\<rparr>,
              stake_b\<lparr>is_won := Some False, payout := 0, resolved_at := Some 1001\<rparr>]\<rparr>"

definition resolved_svc :: betting_service where
  "resolved_svc = BettingService_init\<lparr>total_service_deposit := 200\<rparr>"

text \<open>Calls that come after the resolution.\<close>

definition later_calls :: "call list" where
  "later_calls =
     [PlaceBet 2000 2001 1 1 10 ''draw'', WithdrawMoney 2000 2002 1 5,
      ResolveEvent demo_clock 1 ''team_b_won'']"

text \<open>
  A second event, still open, on which bob has staked 50 on a draw at the default odds
  3.0 after \<open>derby\<close> was resolved; and calls that do not resolve \<open>derby\<close>: a bet on it, a
  bet on the open event, a withdrawal and the resolution of the open event.
\<close>

definition final_ev :: event where
  "final_ev = \<lparr>e_id = 2, name = ''Tennis Match: Eagles vs Wolves'', sport_type = ''tennis'',
               description = ''Upcoming tennis match between Eagles and Wolves'',
               start_time = 7200000000, is_active = True, is_finished = False, result = None\<rparr>"

definition stake_c :: bet where
  "stake_c = \<lparr>b_id = 3, user_id = 2, event_id = 2, amount = 50, odds = 3,
              predicted_outcome = ''draw'', is_won = None, payout = 0,
              placed_at = 1500, resolved_at = None\<rparr>"

definition two_event_db :: database where
  "two_event_db =
     \<lparr>users = [alice\<lparr>balance := 200, total_deposited := 100\<rparr>,
               bob\<lparr>balance := 50, total_deposited := 650\<rparr>],
      events = [derby\<lparr>is_active := False, is_finished := True, result := Some ''team_a_won''\<rparr>,
                final_ev],
      bets = [stake_a\<lparr>is_won := Some True, payout := 200, resolved_at := Some 1000\<rparr>,
              stake_b\<lparr>is_won := Some False, payout := 0, resolved_at := Some 1001\<rparr>,
              stake_c]\<rparr>"

definition two_event_svc :: betting_service where
  "two_event_svc = BettingService_init\<lparr>total_service_deposit := 250\<rparr>"

definition other_calls :: "call list" where
  "other_calls =
     [PlaceBet 2000 2001 1 1 10 ''draw'', PlaceBet 2002 2003 1 2 20 ''team_a_won'',
      WithdrawMoney 2004 2005 1 5, ResolveEvent demo_clock 2 ''draw'']"

text \<open>
  A negative amount far below the spacing of the doubles around 100 (which is 2^-46):
  \<open>-2^-60\<close>, about \<open>-8.67e-19\<close>, itself a double.
\<close>

definition tiny_amount :: pyfloat where
  "tiny_amount = - (1 / 2 ^ 60)"

text \<open>
  A decoder for the examples: one token with both claims, one without a role, one that
  has expired; anything else does not parse.
\<close>

definition demo_decode :: "string \<Rightarrow> exn + (string \<rightharpoonup> json)" where
  "demo_decode t =
     (if t = ''good'' then Inr [''sub'' \<mapsto> JString ''alice'', ''role'' \<mapsto> JString ''admin'']
      else if t = ''norole'' then Inr [''sub'' \<mapsto> JString ''alice'']
      else if t = ''expired'' then Inl ExpiredSignatureError
      else Inl JWTError)"

section \<open>Facts about the odds computation\<close>

lemma keys_dict_update: "map fst (dict_update d k f) = map fst d"
  by (induction d) (auto simp: dict_update_def)

lemma map_of_dict_update:
  "map_of (dict_update d k f) k' = (if k' = k then map_option f (map_of d k) else map_of d k')"
  by (induction d) (auto simp: dict_update_def)

lemma keys_dict_update': "fst ` set (dict_update d k f) = fst ` set d"
  using keys_dict_update[of d k f] by (metis set_map)

lemma keys_add_bet_stat:
  "fst ` set (add_bet_stat d b) = insert (predicted_outcome b) (fst ` set d)"
  by (auto simp: add_bet_stat_def Let_def keys_dict_update' dict_setitem_def dict_contains_def)

lemma distinct_add_bet_stat:
  "distinct (map fst d) \<Longrightarrow> distinct (map fst (add_bet_stat d b))"
  by (auto simp: add_bet_stat_def Let_def keys_dict_update dict_setitem_def dict_contains_def)

lemma keys_foldl_add_bet_stat:
  "fst ` set (foldl add_bet_stat d bs) = fst ` set d \<union> predicted_outcome ` set bs"
  by (induction bs arbitrary: d) (simp_all add: keys_add_bet_stat)

lemma distinct_foldl_add_bet_stat:
  "distinct (map fst d) \<Longrightarrow> distinct (map fst (foldl add_bet_stat d bs))"
  by (induction bs arbitrary: d) (auto simp: distinct_add_bet_stat)

lemma sum_dict_update:
  "distinct (map fst d) \<Longrightarrow> map_of d k = Some s \<Longrightarrow>
   sum_list (map (\<lambda>(outcome, s). stat_amount s) (dict_update d k f))
     = sum_list (map (\<lambda>(outcome, s). stat_amount s) d) + (stat_amount (f s) - stat_amount s)"
proof (induction d)
  case Nil then show ?case by simp
next
  case (Cons a d)
  obtain k' v where a: "a = (k', v)" by (cases a)
  show ?case
  proof (cases "k' = k")
    case True
    with Cons.prems a have "k \<notin> set (map fst d)" and "v = s" by auto
    then have "dict_update d k f = d"
      by (induction d) (auto simp: dict_update_def)
    with True a \<open>v = s\<close> show ?thesis by (simp add: dict_update_def)
  next
    case False
    with Cons a show ?thesis by (simp add: dict_update_def)
  qed
qed

lemma sum_add_bet_stat:
  assumes "distinct (map fst d)"
  shows "sum_list (map (\<lambda>(outcome, s). stat_amount s) (add_bet_stat d b))
     = sum_list (map (\<lambda>(outcome, s). stat_amount s) d) + amount b"
proof (cases "dict_contains d (predicted_outcome b)")
  case True
  then obtain s where s: "map_of d (predicted_outcome b) = Some s"
    by (auto simp: dict_contains_def weak_map_of_SomeI) (metis map_of_eq_None_iff not_Some_eq image_eqI fst_conv)
  show ?thesis using True sum_dict_update[OF assms s]
    by (simp add: add_bet_stat_def Let_def)
next
  case False
  let ?d = "d @ [(predicted_outcome b, \<lparr>stat_count = 0, stat_amount = 0\<rparr>)]"
  have d: "distinct (map fst ?d)" using False assms by (auto simp: dict_contains_def)
  have s: "map_of ?d (predicted_outcome b) = Some \<lparr>stat_count = 0, stat_amount = 0\<rparr>"
    using False by (auto simp: dict_contains_def map_of_eq_None_iff[symmetric] map_add_def split: option.splits)
  show ?thesis using False sum_dict_update[OF d s]
    by (simp add: add_bet_stat_def Let_def dict_setitem_def)
qed

lemma sum_foldl_add_bet_stat:
  "distinct (map fst d) \<Longrightarrow>
   sum_list (map (\<lambda>(outcome, s). stat_amount s) (foldl add_bet_stat d bs))
     = sum_list (map (\<lambda>(outcome, s). stat_amount s) d) + total_staked bs"
  by (induction bs arbitrary: d) (auto simp: sum_add_bet_stat distinct_add_bet_stat total_staked_def)

lemma map_of_add_bet_stat:
  "map_of (add_bet_stat d b) k =
    (if k = predicted_outcome b
     then Some (case map_of d k of
                  None \<Rightarrow> \<lparr>stat_count = 1, stat_amount = amount b\<rparr>
                | Some s \<Rightarrow> s\<lparr>stat_count := stat_count s + 1, stat_amount := stat_amount s + amount b\<rparr>)
     else map_of d k)"
proof (cases "dict_contains d (predicted_outcome b)")
  case True
  then have "map_of d (predicted_outcome b) \<noteq> None"
    by (simp add: dict_contains_def map_of_eq_None_iff)
  with True show ?thesis
    by (auto simp: add_bet_stat_def Let_def map_of_dict_update)
next
  case False
  then have "map_of d (predicted_outcome b) = None"
    by (simp add: dict_contains_def map_of_eq_None_iff)
  with False show ?thesis
    by (auto simp: add_bet_stat_def Let_def map_of_dict_update dict_setitem_def map_add_def
          split: option.splits)
qed

lemma amount_foldl_add_bet_stat:
  "map_option stat_amount (map_of (foldl add_bet_stat d bs) k) =
     (case map_of d k of
        Some s \<Rightarrow> Some (stat_amount s + staked_on bs k)
      | None \<Rightarrow> if k \<in> predicted_outcome ` set bs then Some (staked_on bs k) else None)"
proof (induction bs arbitrary: d)
  case Nil then show ?case by (simp add: staked_on_def split: option.splits)
next
  case (Cons b bs)
  show ?case
    by (simp add: Cons.IH map_of_add_bet_stat staked_on_def split: option.splits) 
qed


lemma map_of_backfill:
  "map_of (backfill d k v) k' = (if k' = k \<and> map_of d k = None then Some v else map_of d k')"
proof (cases "dict_contains d k")
  case True
  then have "map_of d k \<noteq> None" by (simp add: dict_contains_def map_of_eq_None_iff)
  with True show ?thesis by (auto simp: backfill_def)
next
  case False
  then have "map_of d k = None" by (simp add: dict_contains_def map_of_eq_None_iff)
  with False show ?thesis
    by (auto simp: backfill_def dict_setitem_def map_add_def split: option.splits)
qed

lemma set_backfill: "set (backfill d k v) \<subseteq> insert (k, v) (set d)"
  by (auto simp: backfill_def dict_setitem_def)

lemma outcome_odd_pos:
  "0 < a \<Longrightarrow> bookie_margin svc = m \<Longrightarrow> outcome_odd svc t a = max (t / a * (1 - m)) (11 / 10)"
  by (simp only: outcome_odd_def Let_def if_True)

lemma outcome_odd_floor: "11 / 10 \<le> outcome_odd svc t a"
proof (cases "0 < a")
  case True
  show ?thesis unfolding outcome_odd_pos[OF True refl] by (rule max.cobounded2)
next
  case False
  then show ?thesis by (simp add: outcome_odd_def)
qed

lemma amount_collect:
  "map_option stat_amount (map_of (collect_outcome_stats bs) k) =
     (if k \<in> predicted_outcome ` set bs then Some (staked_on bs k) else None)"
  using amount_foldl_add_bet_stat[of "[]" bs k] by (simp add: collect_outcome_stats_def)

lemma total_collect:
  "sum_list (map (\<lambda>(outcome, s). stat_amount s) (collect_outcome_stats bs)) = total_staked bs"
  using sum_foldl_add_bet_stat[of "[]" bs] by (simp add: collect_outcome_stats_def)

lemma staked_on_positive_mem: "0 < staked_on bs k \<Longrightarrow> k \<in> predicted_outcome ` set bs"
proof (rule ccontr)
  assume p: "0 < staked_on bs k" and n: "k \<notin> predicted_outcome ` set bs"
  from n have "filter (\<lambda>b. predicted_outcome b = k) bs = []"
    by (auto simp: filter_empty_conv)
  with p show False by (simp add: staked_on_def)
qed

lemma map_of_stat_odds:
  "map_of (map (\<lambda>(outcome, s). (outcome, g (stat_amount s))) d) k
     = map_option g (map_option stat_amount (map_of d k))"
  by (induction d) auto

lemma map_of_odds_bets:
  assumes "bets_of_event db eid \<noteq> []"
  shows "map_of (calculate_odds_based_on_bets svc db eid) k =
     (if k \<in> predicted_outcome ` set (bets_of_event db eid)
      then Some (outcome_odd svc (total_staked (bets_of_event db eid))
                   (staked_on (bets_of_event db eid) k))
      else if k = ''team_a_won'' \<or> k = ''team_b_won'' then Some 2
      else if k = ''draw'' then Some 3 else None)"
  using assms
  by (simp add: calculate_odds_based_on_bets_def Let_def map_of_backfill map_of_stat_odds
        amount_collect total_collect)

lemma odds_values_floor:
  "(k, v) \<in> set (calculate_odds_based_on_bets svc db eid) \<Longrightarrow> 11 / 10 \<le> v"
proof (cases "bets_of_event db eid = []")
  case True
  assume "(k, v) \<in> set (calculate_odds_based_on_bets svc db eid)"
  with True show ?thesis by (auto simp: calculate_odds_based_on_bets_def)
next
  case False
  assume m: "(k, v) \<in> set (calculate_odds_based_on_bets svc db eid)"
  define st where "st = collect_outcome_stats (bets_of_event db eid)"
  define t where "t = sum_list (map (\<lambda>(outcome, s). stat_amount s) st)"
  define o0 where "o0 = map (\<lambda>(outcome, s). (outcome, outcome_odd svc t (stat_amount s))) st"
  have eq: "calculate_odds_based_on_bets svc db eid =
     backfill (backfill (backfill o0 ''team_a_won'' 2) ''team_b_won'' 2) ''draw'' 3"
    using False by (simp add: calculate_odds_based_on_bets_def Let_def st_def t_def o0_def)
  have "(k, v) \<in> insert (''draw'', 3) (insert (''team_b_won'', 2) (insert (''team_a_won'', 2) (set o0)))"
    using m set_backfill[of "backfill (backfill o0 ''team_a_won'' 2) ''team_b_won'' 2" "''draw''" 3]
      set_backfill[of "backfill o0 ''team_a_won'' 2" "''team_b_won''" 2]
      set_backfill[of o0 "''team_a_won''" 2]
    unfolding eq by blast
  then consider "v = 3" | "v = 2" | "(k, v) \<in> set o0" by auto
  then show ?thesis
  proof cases
    case 3
    then obtain s :: outcome_stat where "v = outcome_odd svc t (stat_amount s)"
      by (auto simp: o0_def)
    then show ?thesis by (simp only: outcome_odd_floor)
  qed simp_all
qed


section \<open>Facts about the lock check\<close>

lemma check_lock_margin:
  "check_lock svc now uid = Inr svc1 \<Longrightarrow>
     bookie_margin svc1 = bookie_margin svc \<and> total_service_deposit svc1 = total_service_deposit svc
     \<and> locked_users svc1 = (locked_users svc)(uid := None)"
  by (auto simp: check_lock_def split: option.splits if_splits)

lemma check_lock_active:
  "locked_users svc uid = Some t \<Longrightarrow> now < t \<Longrightarrow> check_lock svc now uid
       = Inl (Exception ''User is temporarily locked due to withdrawal action'')"
  by (simp add: check_lock_def)

lemma check_lock_expired:
  "locked_users svc uid = Some t \<Longrightarrow> t \<le> now \<Longrightarrow>
     check_lock svc now uid = Inr (svc\<lparr>locked_users := (locked_users svc)(uid := None)\<rparr>)"
  by (simp add: check_lock_def)

lemma check_lock_absent: "locked_users svc uid = None \<Longrightarrow> check_lock svc now uid = Inr svc"
  by (simp add: check_lock_def)


section \<open>The example states are reachable\<close>

text \<open>
  The storage with the two stakes is what two \<open>place_bet\<close> calls make of the storage
  with no bets: alice gets the default odds 2.0 for team A, and bob, after her, the
  backfilled 2.0 for team B.
\<close>

lemma odds_db_reached:
  "run (BettingService_init, start_db)
     [PlaceBet 9 10 1 1 100 ''team_a_won'', PlaceBet 19 20 2 1 300 ''team_b_won'']
     = (staked_svc, odds_db)"
  by (simp add: run_def place_bet_def check_lock_def scalar_one_or_none_def start_db_def
        alice_def bob_def derby_def calculate_odds_based_on_bets_def bets_of_event_def Let_def
        BettingService_init_def autoincrement_def collect_outcome_stats_def add_bet_stat_def
        dict_contains_def dict_setitem_def dict_update_def outcome_odd_def backfill_def
        odds_db_def staked_svc_def stake_a_def stake_b_def)

text \<open>The storage with two events is the resolved one, a new event and bob's bet on it.\<close>

lemma two_event_db_reached:
  "place_bet resolved_svc (resolved_db\<lparr>events := events resolved_db @ [final_ev]\<rparr>)
     1499 1500 2 2 50 ''draw''
     = (Inr stake_c, two_event_svc, two_event_db)"
  by (simp add: place_bet_def check_lock_def scalar_one_or_none_def resolved_db_def
        resolved_svc_def alice_def bob_def derby_def final_ev_def stake_a_def stake_b_def
        stake_c_def calculate_odds_based_on_bets_def bets_of_event_def Let_def
        BettingService_init_def autoincrement_def two_event_db_def two_event_svc_def)

section \<open>Facts about placing a bet\<close>

lemma place_bet_clears_lock:
  assumes "check_lock svc now uid = Inr svc1"
  shows "locked_users (fst (snd (place_bet svc db now t_placed uid eid a outcome))) uid = None"
proof -
  from check_lock_margin[OF assms] have "locked_users svc1 uid = None" by simp
  then show ?thesis
    by (simp add: place_bet_def assms Let_def split: sum.splits option.splits)
qed

lemma calculate_odds_margin:
  "bookie_margin svc1 = bookie_margin svc \<Longrightarrow>
     calculate_odds_based_on_bets svc1 db eid = calculate_odds_based_on_bets svc db eid"
proof -
  assume "bookie_margin svc1 = bookie_margin svc"
  then have "outcome_odd svc1 = outcome_odd svc"
    by (intro ext) (simp add: outcome_odd_def)
  then show ?thesis
    by (simp only: calculate_odds_based_on_bets_def)
qed

lemma scalar_one_or_none_Some:
  "scalar_one_or_none rows = Inr (Some x) \<longleftrightarrow> rows = [x]"
  by (auto simp: scalar_one_or_none_def split: list.splits)

text \<open>What a successful call has checked and what it returns.\<close>

lemma place_bet_success:
  assumes "check_lock svc now uid = Inr svc1"
    and "filter (\<lambda>u. u_id u = uid) (users db) = [usr]"
    and "\<not> balance usr < amt"
    and "filter (\<lambda>e. e_id e = eid) (events db) = [ev]"
    and "is_active ev" and "\<not> is_finished ev"
    and "map_of (calculate_odds_based_on_bets svc db eid) outcome = Some od"
  shows "place_bet svc db now t_placed uid eid amt outcome =
     (Inr \<lparr>b_id = autoincrement (map b_id (bets db)), user_id = uid, event_id = eid,
            amount = amt, odds = od, predicted_outcome = outcome, is_won = None,
            payout = 0, placed_at = t_placed, resolved_at = None\<rparr>,
      svc1\<lparr>total_service_deposit := total_service_deposit svc1 + amt\<rparr>,
      db\<lparr>users := map (\<lambda>u. if u_id u = uid
                             then usr\<lparr>balance := balance usr - amt,
                                      total_deposited := total_deposited usr + amt\<rparr>
                             else u) (users db),
         bets := bets db @ [\<lparr>b_id = autoincrement (map b_id (bets db)), user_id = uid,
            event_id = eid, amount = amt, odds = od, predicted_outcome = outcome,
            is_won = None, payout = 0, placed_at = t_placed, resolved_at = None\<rparr>]\<rparr>)"
proof -
  from check_lock_margin[OF assms(1)] have "bookie_margin svc1 = bookie_margin svc" by simp
  then have "map_of (calculate_odds_based_on_bets svc1 db eid) outcome = Some od"
    using assms(7) by (simp only: calculate_odds_margin[of svc1 svc])
  with assms show ?thesis
    by (simp add: place_bet_def scalar_one_or_none_def Let_def)
qed

lemma place_bet_InrD:
  assumes "place_bet svc db now t_placed uid eid amt outcome = (Inr b, svc', db')"
  shows "\<exists>svc1 usr ev od.
      check_lock svc now uid = Inr svc1
      \<and> filter (\<lambda>u. u_id u = uid) (users db) = [usr]
      \<and> \<not> balance usr < amt
      \<and> filter (\<lambda>e. e_id e = eid) (events db) = [ev]
      \<and> is_active ev \<and> \<not> is_finished ev
      \<and> map_of (calculate_odds_based_on_bets svc db eid) outcome = Some od"
proof -
  obtain svc1 where c: "check_lock svc now uid = Inr svc1"
    using assms by (cases "check_lock svc now uid") (auto simp: place_bet_def)
  from check_lock_margin[OF c] have m: "bookie_margin svc1 = bookie_margin svc" by simp
  obtain usr where u: "filter (\<lambda>u. u_id u = uid) (users db) = [usr]"
    using assms c
    by (auto simp: place_bet_def scalar_one_or_none_def split: list.splits)
  have bal: "\<not> balance usr < amt"
    using assms c u by (auto simp: place_bet_def scalar_one_or_none_def split: if_splits)
  obtain ev where e: "filter (\<lambda>e. e_id e = eid) (events db) = [ev]"
    using assms c u bal
    by (auto simp: place_bet_def scalar_one_or_none_def split: list.splits)
  have act: "is_active ev \<and> \<not> is_finished ev"
    using assms c u bal e
    by (auto simp: place_bet_def scalar_one_or_none_def split: if_splits)
  obtain od where o: "map_of (calculate_odds_based_on_bets svc1 db eid) outcome = Some od"
    using assms c u bal e act
    by (auto simp: place_bet_def scalar_one_or_none_def Let_def split: option.splits)
  from o m have "map_of (calculate_odds_based_on_bets svc db eid) outcome = Some od"
    by (simp only: calculate_odds_margin[of svc1 svc])
  with c u bal e act show ?thesis by blast
qed

text \<open>A call that raises hands the storage and the deposit total back untouched.\<close>

lemma place_bet_Inl_frame:
  assumes "fst (place_bet svc db now t_placed uid eid amt outcome) = Inl e"
  shows "snd (snd (place_bet svc db now t_placed uid eid amt outcome)) = db
     \<and> total_service_deposit (fst (snd (place_bet svc db now t_placed uid eid amt outcome)))
         = total_service_deposit svc"
proof (cases "check_lock svc now uid")
  case (Inl x)
  then show ?thesis by (simp add: place_bet_def)
next
  case (Inr svc1)
  from check_lock_margin[OF Inr]
  have t: "total_service_deposit svc1 = total_service_deposit svc" by simp
  show ?thesis
    using assms Inr t
    by (auto simp: place_bet_def Let_def split: sum.splits option.splits if_splits)
qed

lemma filter_map_same_key:
  assumes "\<And>x. key (f x) = key x"
  shows "filter (\<lambda>x. P (key x)) (map f xs) = map f (filter (\<lambda>x. P (key x)) xs)"
  by (induction xs) (simp_all add: assms)

lemma filter_singleton_key:
  assumes "filter (\<lambda>x. key x = k) xs = [x]"
  shows "key x = k"
proof -
  have "x \<in> set (filter (\<lambda>x. key x = k) xs)" by (simp add: assms)
  then show ?thesis by simp
qed

text \<open>
  A table after the row of one key has been replaced (the commit of an updated row, by
  primary key): that row is the new one, every other row is as before.
\<close>

lemma replace_by_key:
  assumes "filter (\<lambda>x. key x = k) xs = [x]" and "key x' = k"
  shows "filter (\<lambda>x. key x = k) (map (\<lambda>y. if key y = k then x' else y) xs) = [x']"
    and "filter (\<lambda>x. key x \<noteq> k) (map (\<lambda>y. if key y = k then x' else y) xs)
           = filter (\<lambda>x. key x \<noteq> k) xs"
proof -
  let ?f = "\<lambda>y. if key y = k then x' else y"
  have c: "\<And>y. key (?f y) = key y" using assms(2) by simp
  have "filter (\<lambda>x. key x = k) (map ?f xs) = map ?f (filter (\<lambda>x. key x = k) xs)"
    using filter_map_same_key[of key ?f "\<lambda>i. i = k" xs, OF c] by simp
  then show "filter (\<lambda>x. key x = k) (map ?f xs) = [x']"
    using assms(1) filter_singleton_key[OF assms(1)] by simp
  have "filter (\<lambda>x. key x \<noteq> k) (map ?f xs) = map ?f (filter (\<lambda>x. key x \<noteq> k) xs)"
    using filter_map_same_key[of key ?f "\<lambda>i. i \<noteq> k" xs, OF c] by simp
  also have "\<dots> = filter (\<lambda>x. key x \<noteq> k) xs"
    by (rule map_idI) simp
  finally show "filter (\<lambda>x. key x \<noteq> k) (map ?f xs) = filter (\<lambda>x. key x \<noteq> k) xs" .
qed

section \<open>Facts about double arithmetic\<close>

lemma pow2_powi: "pow2 k = 2 powi k"
  by (simp add: pow2_def power_int_def field_simps)

lemma pow2_pos: "0 < pow2 k"
  by (simp add: pow2_powi)

lemma pow2_add: "pow2 (a + b) = pow2 a * pow2 b"
  by (simp add: pow2_powi power_int_add)

lemma pow2_mono: "a \<le> b \<Longrightarrow> pow2 a \<le> pow2 b"
  by (simp add: pow2_powi power_int_increasing)

lemma pow2_less_D: "pow2 a < pow2 b \<Longrightarrow> a < b"
  using pow2_mono[of b a] by (cases "a < b") auto

lemma bit_length_bounds:
  "0 < n \<Longrightarrow> 1 \<le> bit_length n \<and> 2 ^ nat (bit_length n - 1) \<le> n \<and> n < 2 ^ nat (bit_length n)"
proof (induction n rule: bit_length.induct)
  case (1 n)
  have bl: "bit_length n = 1 + bit_length (n div 2)"
    using "1.prems" by (subst bit_length.simps) simp
  show ?case
  proof (cases "n = 1")
    case True
    have "bit_length (0::int) = 0" by (subst bit_length.simps) simp
    with True bl show ?thesis by simp
  next
    case False
    with "1.prems" have h: "0 < n div 2" by simp
    from "1.IH" "1.prems" h have ih: "1 \<le> bit_length (n div 2)"
      "2 ^ nat (bit_length (n div 2) - 1) \<le> n div 2"
      "n div 2 < 2 ^ nat (bit_length (n div 2))" by simp_all
    define k where "k = nat (bit_length (n div 2) - 1)"
    have n1: "nat (bit_length n - 1) = Suc k" "nat (bit_length (n div 2)) = Suc k"
      "nat (bit_length n) = Suc (Suc k)"
      using ih(1) by (simp_all add: bl k_def nat_add_distrib)
    define P :: int where "P = 2 ^ k"
    from ih have a: "P \<le> n div 2" "n div 2 < 2 * P"
      by (simp_all add: n1 k_def[symmetric] P_def)
    then have b: "2 * P \<le> n" "n < 2 * (2 * P)" by presburger+
    have l: "1 \<le> bit_length n" using bl ih(1) by simp
    have e1: "(2::int) ^ nat (bit_length n - 1) = 2 * P"
      and e2: "(2::int) ^ nat (bit_length n) = 2 * (2 * P)"
      by (simp_all only: n1 P_def power_Suc)
    from l b show ?thesis unfolding e1 e2 by blast
  qed
qed


lemma pow2_of_int: "0 \<le> k \<Longrightarrow> pow2 k = of_int (2 ^ nat k)"
  by (simp add: pow2_def)

lemma bit_length_bounds_rat:
  assumes "0 < n"
  shows "pow2 (bit_length n - 1) \<le> of_int n" and "of_int n < pow2 (bit_length n)"
proof -
  from bit_length_bounds[OF assms]
  have l: "1 \<le> bit_length n" and a: "2 ^ nat (bit_length n - 1) \<le> n"
    and b: "n < 2 ^ nat (bit_length n)" by blast+
  from a have "(of_int (2 ^ nat (bit_length n - 1)) :: rat) \<le> of_int n"
    by (simp only: of_int_le_iff)
  then show "pow2 (bit_length n - 1) \<le> of_int n"
    using l by (simp only: pow2_of_int[of "bit_length n - 1"] diff_ge_0_iff_ge)
  from b have "(of_int n :: rat) < of_int (2 ^ nat (bit_length n))"
    by (simp only: of_int_less_iff)
  then show "of_int n < pow2 (bit_length n)"
    using l by (simp add: pow2_of_int)
qed

lemma floor_log2_bounds:
  assumes "0 < x"
  shows "pow2 (floor_log2 x) \<le> x \<and> x < pow2 (floor_log2 x + 1)"
proof -
  obtain a b where q: "quotient_of x = (a, b)" by (cases "quotient_of x")
  from quotient_of_denom_pos[OF q] have b: "0 < b" .
  from quotient_of_div[OF q] have x: "x = of_int a / of_int b" .
  from assms b have a: "0 < a" unfolding x by (simp add: zero_less_divide_iff)
  define k where "k = bit_length a - bit_length b"
  have fl: "floor_log2 x = (if pow2 k \<le> x then k else k - 1)"
    by (simp add: floor_log2_def q k_def Let_def)
  note A = bit_length_bounds_rat[OF a] and B = bit_length_bounds_rat[OF b]
  have br: "(0::rat) < of_int b" using b by simp
  have up: "x < pow2 (k + 1)"
  proof -
    have "pow2 (k + 1) * pow2 (bit_length b - 1) = pow2 (bit_length a)"
      by (simp add: pow2_add[symmetric] k_def)
    moreover have "pow2 (k + 1) * pow2 (bit_length b - 1) \<le> pow2 (k + 1) * of_int b"
      using B(1) pow2_pos[of "k + 1"] by (simp only: mult_le_cancel_left_pos)
    ultimately have "of_int a < pow2 (k + 1) * of_int b" using A(2) by linarith
    then show ?thesis unfolding x using br by (simp add: pos_divide_less_eq)
  qed
  have lo: "pow2 (k - 1) \<le> x"
  proof -
    have "pow2 (k - 1) * pow2 (bit_length b) = pow2 (bit_length a - 1)"
      by (simp add: pow2_add[symmetric] k_def)
    moreover have "pow2 (k - 1) * of_int b \<le> pow2 (k - 1) * pow2 (bit_length b)"
      using B(2) pow2_pos[of "k - 1"] by (simp only: mult_le_cancel_left_pos less_imp_le)
    ultimately have "pow2 (k - 1) * of_int b \<le> of_int a" using A(1) by linarith
    then show ?thesis unfolding x using br by (simp add: pos_le_divide_eq)
  qed
  show ?thesis
  proof (cases "pow2 k \<le> x")
    case True
    with up fl show ?thesis by simp
  next
    case False
    with lo fl show ?thesis by simp
  qed
qed


lemma round_half_even_bounds:
  "\<lfloor>y\<rfloor> \<le> round_half_even y \<and> round_half_even y \<le> \<lfloor>y\<rfloor> + 1"
  by (simp add: round_half_even_def Let_def)

lemma round_half_even_of_int: "round_half_even (of_int n) = n"
  by (simp add: round_half_even_def Let_def)

lemma round_half_even_mono:
  assumes "y \<le> z"
  shows "round_half_even y \<le> round_half_even z"
proof (cases "\<lfloor>y\<rfloor> < \<lfloor>z\<rfloor>")
  case True
  with round_half_even_bounds[of y] round_half_even_bounds[of z] show ?thesis by linarith
next
  case False
  with floor_mono[OF assms] have f: "\<lfloor>z\<rfloor> = \<lfloor>y\<rfloor>" by simp
  from assms have "y - of_int \<lfloor>y\<rfloor> \<le> z - of_int \<lfloor>y\<rfloor>" by simp
  then show ?thesis
    by (auto simp: round_half_even_def Let_def f)
qed

lemma round_positive_bounds:
  assumes "0 < x"
  shows "pow2 (floor_log2 x) \<le> round_positive x \<and> round_positive x \<le> pow2 (floor_log2 x + 1)"
proof -
  define e where "e = floor_log2 x"
  define q where "q = pow2 (e - 52)"
  have q: "0 < q" by (simp add: q_def pow2_pos)
  from floor_log2_bounds[OF assms] have b: "pow2 e \<le> x" "x < pow2 (e + 1)"
    by (simp_all add: e_def)
  have c: "pow2 52 = of_int (2 ^ 52)" "pow2 53 = of_int (2 ^ 53)"
    by (simp_all add: pow2_def)
  have "52 + (e - 52) = e" "53 + (e - 52) = e + 1" by simp_all
  with pow2_add[of 52 "e - 52"] pow2_add[of 53 "e - 52"]
  have "pow2 e = pow2 52 * q" "pow2 (e + 1) = pow2 53 * q"
    by (simp_all only: q_def)
  then have p1: "pow2 e = of_int (2 ^ 52) * q" and p2: "pow2 (e + 1) = of_int (2 ^ 53) * q"
    by (simp_all only: c)
  have "of_int (2 ^ 52) \<le> x / q" using b(1) q unfolding p1 by (simp add: pos_le_divide_eq)
  from round_half_even_mono[OF this] have l: "2 ^ 52 \<le> round_half_even (x / q)"
    by (simp only: round_half_even_of_int)
  have "x / q \<le> of_int (2 ^ 53)" using b(2) q unfolding p2 by (simp add: pos_divide_le_eq)
  from round_half_even_mono[OF this] have u: "round_half_even (x / q) \<le> 2 ^ 53"
    by (simp only: round_half_even_of_int)
  have r: "round_positive x = of_int (round_half_even (x / q)) * q"
    by (simp add: round_positive_def q_def e_def Let_def)
  from l have "(of_int (2 ^ 52) :: rat) \<le> of_int (round_half_even (x / q))"
    by (simp only: of_int_le_iff)
  then have "of_int (2 ^ 52) * q \<le> of_int (round_half_even (x / q)) * q"
    using q by (simp only: mult_le_cancel_right_pos)
  moreover from u have "(of_int (round_half_even (x / q)) :: rat) \<le> of_int (2 ^ 53)"
    by (simp only: of_int_le_iff)
  then have "of_int (round_half_even (x / q)) * q \<le> of_int (2 ^ 53) * q"
    using q by (simp only: mult_le_cancel_right_pos)
  ultimately show ?thesis unfolding r e_def[symmetric] p1 p2 by blast
qed

lemma round_positive_mono:
  assumes "0 < x" and "x \<le> y"
  shows "round_positive x \<le> round_positive y"
proof -
  from assms have y: "0 < y" by simp
  note bx = floor_log2_bounds[OF assms(1)] and by' = floor_log2_bounds[OF y]
  from bx by' assms(2) have "pow2 (floor_log2 x) < pow2 (floor_log2 y + 1)" by linarith
  from pow2_less_D[OF this] have le: "floor_log2 x \<le> floor_log2 y" by simp
  show ?thesis
  proof (cases "floor_log2 x = floor_log2 y")
    case True
    define q where "q = pow2 (floor_log2 y - 52)"
    have q: "0 < q" by (simp add: q_def pow2_pos)
    from assms(2) q have "x / q \<le> y / q" by (simp add: divide_right_mono)
    from round_half_even_mono[OF this]
    have "(of_int (round_half_even (x / q)) :: rat) \<le> of_int (round_half_even (y / q))"
      by (simp only: of_int_le_iff)
    then have "of_int (round_half_even (x / q)) * q \<le> of_int (round_half_even (y / q)) * q"
      using q by (simp only: mult_le_cancel_right_pos)
    then show ?thesis by (simp add: round_positive_def True q_def Let_def)
  next
    case False
    with le have "floor_log2 x + 1 \<le> floor_log2 y" by simp
    from pow2_mono[OF this] round_positive_bounds[OF assms(1)] round_positive_bounds[OF y]
    show ?thesis by linarith
  qed
qed

lemma round_positive_pos: "0 < x \<Longrightarrow> 0 < round_positive x"
  using round_positive_bounds[of x] pow2_pos[of "floor_log2 x"] by linarith

lemma ieee_double_mono:
  assumes "x \<le> y"
  shows "ieee_double x \<le> ieee_double y"
proof -
  consider "x < 0" "y < 0" | "x < 0" "y = 0" | "x < 0" "0 < y" | "x = 0" "y = 0"
    | "x = 0" "0 < y" | "0 < x" "0 < y"
    using assms by linarith
  then show ?thesis
  proof cases
    case 1
    then have "0 < - y" "- y \<le> - x" using assms by simp_all
    from round_positive_mono[OF this] 1 show ?thesis by (simp add: ieee_double_def)
  next
    case 2
    with round_positive_pos[of "- x"] show ?thesis by (simp add: ieee_double_def)
  next
    case 3
    with round_positive_pos[of "- x"] round_positive_pos[of y] show ?thesis
      by (simp add: ieee_double_def)
  next
    case 4
    then show ?thesis by simp
  next
    case 5
    with round_positive_pos[of y] show ?thesis by (simp add: ieee_double_def)
  next
    case 6
    from round_positive_mono[OF 6(1) assms] 6 show ?thesis by (simp add: ieee_double_def)
  qed
qed

section \<open>Facts about placing a bet in double arithmetic\<close>

lemma place_bet_rounded_id:
  "place_bet_rounded (\<lambda>x. x) svc db now t_placed uid eid amt outcome
     = place_bet svc db now t_placed uid eid amt outcome"
  by (simp add: place_bet_rounded_def place_bet_def)

lemma place_bet_rounded_success:
  assumes "check_lock svc now uid = Inr svc1"
    and "filter (\<lambda>u. u_id u = uid) (users db) = [usr]"
    and "\<not> balance usr < amt"
    and "filter (\<lambda>e. e_id e = eid) (events db) = [ev]"
    and "is_active ev" and "\<not> is_finished ev"
    and "map_of (calculate_odds_based_on_bets svc db eid) outcome = Some od"
  shows "place_bet_rounded rnd svc db now t_placed uid eid amt outcome =
     (Inr \<lparr>b_id = autoincrement (map b_id (bets db)), user_id = uid, event_id = eid,
            amount = amt, odds = od, predicted_outcome = outcome, is_won = None,
            payout = 0, placed_at = t_placed, resolved_at = None\<rparr>,
      svc1\<lparr>total_service_deposit := rnd (total_service_deposit svc1 + amt)\<rparr>,
      db\<lparr>users := map (\<lambda>u. if u_id u = uid
                             then usr\<lparr>balance := rnd (balance usr - amt),
                                      total_deposited := rnd (total_deposited usr + amt)\<rparr>
                             else u) (users db),
         bets := bets db @ [\<lparr>b_id = autoincrement (map b_id (bets db)), user_id = uid,
            event_id = eid, amount = amt, odds = od, predicted_outcome = outcome,
            is_won = None, payout = 0, placed_at = t_placed, resolved_at = None\<rparr>]\<rparr>)"
proof -
  from check_lock_margin[OF assms(1)] have "bookie_margin svc1 = bookie_margin svc" by simp
  then have "map_of (calculate_odds_based_on_bets svc1 db eid) outcome = Some od"
    using assms(7) by (simp only: calculate_odds_margin[of svc1 svc])
  with assms show ?thesis
    by (simp add: place_bet_rounded_def scalar_one_or_none_def Let_def)
qed

section \<open>Facts about resolving an event\<close>

lemma credit_keeps_ids:
  "map u_id (map (\<lambda>u. if u_id u = k then u\<lparr>balance := balance u + p\<rparr> else u) us) = map u_id us"
  by (induction us) simp_all

lemma winnings_Cons:
  "winnings (b # bs) r k =
     (if predicted_outcome b = r \<and> user_id b = k then amount b * odds b else 0)
       + winnings bs r k"
  by (simp add: winnings_def)

lemma total_payout_Cons:
  "total_payout (b # bs) r =
     (if predicted_outcome b = r then amount b * odds b else 0) + total_payout bs r"
  by (simp add: total_payout_def)

text \<open>
  The loop, when every winning bet has its user: the bets are settled in order, each
  with the clock value of its iteration, every user is credited the winnings, and the
  deposit total loses the total payout.
\<close>

lemma resolve_bets_result:
  assumes "\<forall>b \<in> set bs. predicted_outcome b = r \<longrightarrow> user_id b \<in> u_id ` set us"
  shows "resolve_bets clock r i bs svc us =
     (Inr (map (\<lambda>(j, b). settled r b (clock j)) (enumerate i bs),
           map (\<lambda>u. u\<lparr>balance := balance u + winnings bs r (u_id u)\<rparr>) us),
      svc\<lparr>total_service_deposit := total_service_deposit svc - total_payout bs r\<rparr>)"
  using assms
proof (induction bs arbitrary: i svc us)
  case Nil
  show ?case by (simp add: winnings_def total_payout_def)
next
  case (Cons b bs)
  show ?case
  proof (cases "predicted_outcome b = r")
    case True
    let ?p = "amount b * odds b"
    let ?us1 = "map (\<lambda>u. if u_id u = user_id b then u\<lparr>balance := balance u + ?p\<rparr> else u) us"
    let ?svc1 = "svc\<lparr>total_service_deposit := total_service_deposit svc - ?p\<rparr>"
    have "set (map u_id ?us1) = set (map u_id us)" by (simp only: credit_keeps_ids)
    then have ids: "u_id ` set ?us1 = u_id ` set us" by (simp only: set_map)
    from Cons.prems True have ex: "\<exists>u \<in> set us. u_id u = user_id b" by auto
    from Cons.prems have "\<forall>b \<in> set bs. predicted_outcome b = r \<longrightarrow> user_id b \<in> u_id ` set ?us1"
      unfolding ids by simp
    note ih = Cons.IH[OF this, of "Suc i" ?svc1]
    show ?thesis
      using True ex
      by (simp add: ih Let_def settled_def winnings_Cons total_payout_Cons add.assoc
            diff_diff_eq)
  next
    case False
    from Cons.prems have "\<forall>b \<in> set bs. predicted_outcome b = r \<longrightarrow> user_id b \<in> u_id ` set us"
      by simp
    note ih = Cons.IH[OF this, of "Suc i" svc]
    show ?thesis
      using False
      by (simp add: ih Let_def settled_def winnings_Cons total_payout_Cons)
  qed
qed



text \<open>The whole of \<open>resolve_event\<close>, for an event with one row whose winners have users.\<close>

lemma resolve_event_result:
  assumes "filter (\<lambda>e. e_id e = eid) (events db) = [ev]"
    and "\<forall>b \<in> set (bets db). event_id b = eid \<and> predicted_outcome b = r
           \<longrightarrow> user_id b \<in> u_id ` set (users db)"
  shows "resolve_event svc db clock eid r =
     (Inr (),
      svc\<lparr>total_service_deposit :=
            total_service_deposit svc - total_payout (bets_of_event db eid) r\<rparr>,
      \<lparr>users = map (\<lambda>u. u\<lparr>balance := balance u + winnings (bets_of_event db eid) r (u_id u)\<rparr>)
                 (users db),
       events = map (\<lambda>e. if e_id e = eid
                          then ev\<lparr>is_active := False, is_finished := True, result := Some r\<rparr>
                          else e) (events db),
       bets = write_back eid (bets db)
                (map (\<lambda>(j, b). settled r b (clock j)) (enumerate 0 (bets_of_event db eid)))\<rparr>)"
proof -
  from assms(2)
  have "\<forall>b \<in> set (bets_of_event db eid). predicted_outcome b = r \<longrightarrow> user_id b \<in> u_id ` set (users db)"
    by (simp add: bets_of_event_def)
  from resolve_bets_result[OF this, of clock 0 svc] assms(1) show ?thesis
    by (simp add: resolve_event_def scalar_one_or_none_def)
qed

section \<open>Facts about sequences of calls\<close>

lemma place_bet_events:
  "events (snd (snd (place_bet svc db now t_placed uid eid a outcome))) = events db"
proof (cases "fst (place_bet svc db now t_placed uid eid a outcome)")
  case (Inl e)
  from place_bet_Inl_frame[OF Inl] show ?thesis by simp
next
  case (Inr b)
  then obtain svc' db' where ok: "place_bet svc db now t_placed uid eid a outcome = (Inr b, svc', db')"
    by (cases "place_bet svc db now t_placed uid eid a outcome") auto
  from place_bet_InrD[OF ok] obtain svc1 usr ev od where
    "check_lock svc now uid = Inr svc1" "filter (\<lambda>u. u_id u = uid) (users db) = [usr]"
    "\<not> balance usr < a" "filter (\<lambda>e. e_id e = eid) (events db) = [ev]"
    "is_active ev" "\<not> is_finished ev"
    "map_of (calculate_odds_based_on_bets svc db eid) outcome = Some od"
    by blast
  from place_bet_success[OF this, of t_placed] show ?thesis by simp
qed

text \<open>\<open>resolve_event\<close> either leaves the events alone or closes the rows of its event.\<close>

lemma resolve_event_events:
  "events (snd (snd (resolve_event svc db clock eid r))) = events db
   \<or> (\<exists>ev. e_id ev = eid \<and>
         events (snd (snd (resolve_event svc db clock eid r)))
           = map (\<lambda>e. if e_id e = eid
                        then ev\<lparr>is_active := False, is_finished := True, result := Some r\<rparr>
                        else e) (events db))"
proof (cases "scalar_one_or_none (filter (\<lambda>e. e_id e = eid) (events db))")
  case (Inl x)
  then show ?thesis by (simp add: resolve_event_def)
next
  case (Inr v)
  show ?thesis
  proof (cases v)
    case None
    with Inr show ?thesis by (simp add: resolve_event_def)
  next
    case (Some ev)
    with Inr have "filter (\<lambda>e. e_id e = eid) (events db) = [ev]"
      by (simp add: scalar_one_or_none_Some)
    from filter_singleton_key[OF this] have k: "e_id ev = eid" .
    show ?thesis
    proof (cases "resolve_bets clock r 0 (bets_of_event db eid) svc (users db)")
      case (Pair res svc')
      show ?thesis
      proof (cases res)
        case (Inl x)
        with Pair Inr Some show ?thesis by (simp add: resolve_event_def)
      next
        case (Inr p)
        with Pair \<open>scalar_one_or_none (filter (\<lambda>e. e_id e = eid) (events db)) = Inr v\<close> Some k
        show ?thesis
          by (cases p) (auto simp: resolve_event_def)
      qed
    qed
  qed
qed

lemma step_keeps_closed:
  assumes "event_closed db eid"
  shows "event_closed (snd (step (svc, db) c)) eid
     \<and> map e_id (events (snd (step (svc, db) c))) = map e_id (events db)"
proof (cases c)
  case (PlaceBet now t_placed uid eid' a outcome)
  then have "events (snd (step (svc, db) c)) = events db"
    by (simp add: place_bet_events)
  with assms show ?thesis by (simp add: event_closed_def)
next
  case (ResolveEvent clock eid' r)
  then have s: "snd (step (svc, db) c) = snd (snd (resolve_event svc db clock eid' r))"
    by simp
  from resolve_event_events[of svc db clock eid' r]
  show ?thesis
  proof
    assume "events (snd (snd (resolve_event svc db clock eid' r))) = events db"
    with assms s show ?thesis by (simp add: event_closed_def)
  next
    assume "\<exists>ev. e_id ev = eid' \<and>
         events (snd (snd (resolve_event svc db clock eid' r)))
           = map (\<lambda>e. if e_id e = eid'
                        then ev\<lparr>is_active := False, is_finished := True, result := Some r\<rparr>
                        else e) (events db)"
    then obtain ev where k: "e_id ev = eid'"
      and e: "events (snd (step (svc, db) c))
           = map (\<lambda>e. if e_id e = eid'
                        then ev\<lparr>is_active := False, is_finished := True, result := Some r\<rparr>
                        else e) (events db)"
      unfolding s by blast
    from assms have "event_closed (snd (step (svc, db) c)) eid"
      unfolding event_closed_def e by (auto simp: list_all_iff)
    moreover have "map e_id (events (snd (step (svc, db) c))) = map e_id (events db)"
      unfolding e using k by (induction "events db") simp_all
    ultimately show ?thesis by blast
  qed
next
  case (WithdrawMoney t_check t_lock uid amt)
  with assms show ?thesis by simp
qed

lemma run_keeps_closed:
  "event_closed db eid \<Longrightarrow>
     event_closed (snd (run (svc, db) cs)) eid
     \<and> map e_id (events (snd (run (svc, db) cs))) = map e_id (events db)"
proof (induction cs arbitrary: svc db)
  case Nil
  then show ?case by (simp add: run_def)
next
  case (Cons c cs)
  obtain svc1 db1 where st: "step (svc, db) c = (svc1, db1)" by (cases "step (svc, db) c")
  from step_keeps_closed[OF Cons.prems, of svc c] st
  have c1: "event_closed db1 eid" and i1: "map e_id (events db1) = map e_id (events db)"
    by simp_all
  from Cons.IH[OF c1, of svc1] i1 st show ?case
    by (simp add: run_def)
qed

lemma place_bet_closed_event:
  assumes "event_closed db eid"
  shows "\<exists>e. fst (place_bet svc db now t_placed uid eid a outcome) = Inl e"
proof (cases "fst (place_bet svc db now t_placed uid eid a outcome)")
  case (Inl e)
  then show ?thesis by blast
next
  case (Inr b)
  then obtain svc' db' where ok: "place_bet svc db now t_placed uid eid a outcome = (Inr b, svc', db')"
    by (cases "place_bet svc db now t_placed uid eid a outcome") auto
  from place_bet_InrD[OF ok] obtain ev where
    f: "filter (\<lambda>e. e_id e = eid) (events db) = [ev]" and a: "is_active ev"
    by blast
  have "ev \<in> set (filter (\<lambda>e. e_id e = eid) (events db))" by (simp add: f)
  then have "ev \<in> set (events db)" "e_id ev = eid" by simp_all
  with assms have "\<not> is_active ev" by (auto simp: event_closed_def list_all_iff)
  with a show ?thesis by simp
qed

section \<open>Facts about the rows of a closed event\<close>

lemma place_bet_bets:
  "bets (snd (snd (place_bet svc db now t_placed uid eid a outcome))) = bets db
   \<or> (\<exists>b. event_id b = eid
          \<and> fst (place_bet svc db now t_placed uid eid a outcome) = Inr b
          \<and> bets (snd (snd (place_bet svc db now t_placed uid eid a outcome))) = bets db @ [b])"
proof (cases "fst (place_bet svc db now t_placed uid eid a outcome)")
  case (Inl e)
  from place_bet_Inl_frame[OF Inl] show ?thesis by simp
next
  case (Inr b)
  then obtain svc' db' where ok: "place_bet svc db now t_placed uid eid a outcome = (Inr b, svc', db')"
    by (cases "place_bet svc db now t_placed uid eid a outcome") auto
  from place_bet_InrD[OF ok] obtain svc1 usr ev od where
    "check_lock svc now uid = Inr svc1" "filter (\<lambda>u. u_id u = uid) (users db) = [usr]"
    "\<not> balance usr < a" "filter (\<lambda>e. e_id e = eid) (events db) = [ev]"
    "is_active ev" "\<not> is_finished ev"
    "map_of (calculate_odds_based_on_bets svc db eid) outcome = Some od"
    by blast
  from place_bet_success[OF this, of t_placed] show ?thesis by simp
qed

lemma resolve_bets_event_ids:
  "resolve_bets clock r i bs svc us = (Inr (bs', us'), svc') \<Longrightarrow>
     list_all2 (\<lambda>b b'. event_id b' = event_id b) bs bs'"
proof (induction bs arbitrary: i svc us bs' us' svc')
  case Nil
  then show ?case by simp
next
  case (Cons b bs)
  show ?case
  proof (cases "predicted_outcome b = r")
    case True
    let ?us1 = "map (\<lambda>u. if u_id u = user_id b
                          then u\<lparr>balance := balance u + amount b * odds b\<rparr> else u) us"
    let ?svc1 = "svc\<lparr>total_service_deposit := total_service_deposit svc - amount b * odds b\<rparr>"
    from Cons.prems True have ex: "\<exists>u \<in> set us. u_id u = user_id b"
      by (auto simp: Let_def split: if_splits)
    obtain res svc2 where rec: "resolve_bets clock r (Suc i) bs ?svc1 ?us1 = (res, svc2)"
      by (cases "resolve_bets clock r (Suc i) bs ?svc1 ?us1")
    with Cons.prems True ex obtain tl where res: "res = Inr (tl, us')"
      and bs': "bs' = b\<lparr>is_won := Some True, payout := amount b * odds b,
                         resolved_at := Some (clock i)\<rparr> # tl"
      by (cases res) (auto simp: Let_def)
    from Cons.IH[OF rec[unfolded res]] bs' show ?thesis by simp
  next
    case False
    obtain res svc2 where rec: "resolve_bets clock r (Suc i) bs svc us = (res, svc2)"
      by (cases "resolve_bets clock r (Suc i) bs svc us")
    with Cons.prems False obtain tl where res: "res = Inr (tl, us')"
      and bs': "bs' = b\<lparr>is_won := Some False, payout := 0, resolved_at := Some (clock i)\<rparr> # tl"
      by (cases res) (auto simp: Let_def)
    from Cons.IH[OF rec[unfolded res]] bs' show ?thesis by simp
  qed
qed

lemma resolve_event_bets:
  "bets (snd (snd (resolve_event svc db clock eid r))) = bets db
   \<or> (\<exists>upd. list_all2 (\<lambda>b b'. event_id b' = event_id b)
               (filter (\<lambda>b. event_id b = eid) (bets db)) upd
          \<and> bets (snd (snd (resolve_event svc db clock eid r))) = write_back eid (bets db) upd)"
proof (cases "scalar_one_or_none (filter (\<lambda>e. e_id e = eid) (events db))")
  case (Inl x)
  then show ?thesis by (simp add: resolve_event_def)
next
  case (Inr v)
  show ?thesis
  proof (cases v)
    case None
    with Inr show ?thesis by (simp add: resolve_event_def)
  next
    case (Some ev)
    show ?thesis
    proof (cases "resolve_bets clock r 0 (bets_of_event db eid) svc (users db)")
      case (Pair res svc')
      show ?thesis
      proof (cases res)
        case (Inl x)
        with Pair Inr Some show ?thesis by (simp add: resolve_event_def)
      next
        case (Inr p)
        obtain bs' us' where p: "p = (bs', us')" by (cases p)
        from resolve_bets_event_ids[OF Pair[unfolded Inr p]]
        have "list_all2 (\<lambda>b b'. event_id b' = event_id b)
               (filter (\<lambda>b. event_id b = eid) (bets db)) bs'"
          by (simp add: bets_of_event_def)
        moreover have "bets (snd (snd (resolve_event svc db clock eid r)))
            = write_back eid (bets db) bs'"
          using Pair Inr p Some \<open>scalar_one_or_none (filter (\<lambda>e. e_id e = eid) (events db)) = Inr v\<close>
          by (simp add: resolve_event_def)
        ultimately show ?thesis by blast
      qed
    qed
  qed
qed

text \<open>The commit of another event's bets leaves the bets of this event as they are.\<close>

lemma write_back_other:
  "list_all2 (\<lambda>b b'. event_id b' = event_id b) (filter (\<lambda>b. event_id b = eid') bs) upd \<Longrightarrow>
     eid \<noteq> eid' \<Longrightarrow>
     filter (\<lambda>b. event_id b = eid) (write_back eid' bs upd) = filter (\<lambda>b. event_id b = eid) bs"
proof (induction bs arbitrary: upd)
  case Nil
  then show ?case by simp
next
  case (Cons b bs)
  show ?case
  proof (cases "event_id b = eid'")
    case True
    with Cons.prems(1) obtain b' upd' where u: "upd = b' # upd'"
      and q: "event_id b' = event_id b"
      and r: "list_all2 (\<lambda>b b'. event_id b' = event_id b) (filter (\<lambda>b. event_id b = eid') bs) upd'"
      by (auto simp: list_all2_Cons1)
    from Cons.IH[OF r Cons.prems(2)] True q Cons.prems(2) show ?thesis by (simp add: u)
  next
    case False
    with Cons.prems(1)
    have "list_all2 (\<lambda>b b'. event_id b' = event_id b) (filter (\<lambda>b. event_id b = eid') bs) upd"
      by simp
    from Cons.IH[OF this Cons.prems(2)] False show ?thesis by simp
  qed
qed

lemma filter_replace_other:
  "key x' = k' \<Longrightarrow> k \<noteq> k' \<Longrightarrow>
     filter (\<lambda>x. key x = k) (map (\<lambda>y. if key y = k' then x' else y) xs)
       = filter (\<lambda>x. key x = k) xs"
  by (induction xs) auto

lemma closed_event_row:
  assumes "event_closed db eid" and "filter (\<lambda>e. e_id e = eid) (events db) = [ev]"
  shows "\<not> is_active ev \<and> is_finished ev"
proof -
  have "ev \<in> set (filter (\<lambda>e. e_id e = eid) (events db))" by (simp add: assms(2))
  then have "ev \<in> set (events db)" "e_id ev = eid" by simp_all
  with assms(1) show ?thesis by (auto simp: event_closed_def list_all_iff)
qed

text \<open>A call that is not a resolution of the closed event leaves its row and its bets.\<close>

lemma step_keeps_rows:
  assumes "event_closed db eid" and "\<not> is_resolve_of eid c"
  shows "filter (\<lambda>e. e_id e = eid) (events (snd (step (svc, db) c)))
           = filter (\<lambda>e. e_id e = eid) (events db)
     \<and> filter (\<lambda>b. event_id b = eid) (bets (snd (step (svc, db) c)))
           = filter (\<lambda>b. event_id b = eid) (bets db)"
proof (cases c)
  case (PlaceBet now t_placed uid eid' a outcome)
  have e: "events (snd (step (svc, db) c)) = events db"
    using PlaceBet by (simp add: place_bet_events)
  from place_bet_bets[of svc db now t_placed uid eid' a outcome]
  have "filter (\<lambda>b. event_id b = eid) (bets (snd (snd (place_bet svc db now t_placed uid eid' a outcome))))
      = filter (\<lambda>b. event_id b = eid) (bets db)"
  proof
    assume "bets (snd (snd (place_bet svc db now t_placed uid eid' a outcome))) = bets db"
    then show ?thesis by simp
  next
    assume "\<exists>b. event_id b = eid'
          \<and> fst (place_bet svc db now t_placed uid eid' a outcome) = Inr b
          \<and> bets (snd (snd (place_bet svc db now t_placed uid eid' a outcome))) = bets db @ [b]"
    then obtain b where b: "event_id b = eid'"
      and ok: "fst (place_bet svc db now t_placed uid eid' a outcome) = Inr b"
      and bs: "bets (snd (snd (place_bet svc db now t_placed uid eid' a outcome))) = bets db @ [b]"
      by blast
    have "eid' \<noteq> eid"
    proof
      assume "eid' = eid"
      with place_bet_closed_event[OF assms(1), of svc now t_placed uid a outcome] ok
      show False by simp
    qed
    with b bs show ?thesis by simp
  qed
  with e PlaceBet show ?thesis by simp
next
  case (ResolveEvent clock eid' r)
  with assms(2) have ne: "eid \<noteq> eid'" by simp
  have s: "snd (step (svc, db) c) = snd (snd (resolve_event svc db clock eid' r))"
    using ResolveEvent by simp
  have ev: "filter (\<lambda>e. e_id e = eid) (events (snd (snd (resolve_event svc db clock eid' r))))
      = filter (\<lambda>e. e_id e = eid) (events db)"
    using resolve_event_events[of svc db clock eid' r]
  proof
    assume "events (snd (snd (resolve_event svc db clock eid' r))) = events db"
    then show ?thesis by simp
  next
    assume "\<exists>ev. e_id ev = eid' \<and>
         events (snd (snd (resolve_event svc db clock eid' r)))
           = map (\<lambda>e. if e_id e = eid'
                        then ev\<lparr>is_active := False, is_finished := True, result := Some r\<rparr>
                        else e) (events db)"
    then obtain ev where k: "e_id ev = eid'"
      and e: "events (snd (snd (resolve_event svc db clock eid' r)))
           = map (\<lambda>e. if e_id e = eid'
                        then ev\<lparr>is_active := False, is_finished := True, result := Some r\<rparr>
                        else e) (events db)"
      by blast
    have "e_id (ev\<lparr>is_active := False, is_finished := True, result := Some r\<rparr>) = eid'"
      using k by simp
    from filter_replace_other[of e_id _ eid' eid, OF this ne]
    show ?thesis unfolding e .
  qed
  have bs: "filter (\<lambda>b. event_id b = eid) (bets (snd (snd (resolve_event svc db clock eid' r))))
      = filter (\<lambda>b. event_id b = eid) (bets db)"
    using resolve_event_bets[of svc db clock eid' r]
  proof
    assume "bets (snd (snd (resolve_event svc db clock eid' r))) = bets db"
    then show ?thesis by simp
  next
    assume "\<exists>upd. list_all2 (\<lambda>b b'. event_id b' = event_id b)
               (filter (\<lambda>b. event_id b = eid') (bets db)) upd
          \<and> bets (snd (snd (resolve_event svc db clock eid' r))) = write_back eid' (bets db) upd"
    then obtain upd where u: "list_all2 (\<lambda>b b'. event_id b' = event_id b)
               (filter (\<lambda>b. event_id b = eid') (bets db)) upd"
      and w: "bets (snd (snd (resolve_event svc db clock eid' r))) = write_back eid' (bets db) upd"
      by blast
    from write_back_other[OF u ne] w show ?thesis by simp
  qed
  from ev bs s show ?thesis by simp
next
  case (WithdrawMoney t_check t_lock uid amt)
  then show ?thesis by simp
qed

lemma run_keeps_rows:
  "event_closed db eid \<Longrightarrow> list_all (\<lambda>c. \<not> is_resolve_of eid c) cs \<Longrightarrow>
     filter (\<lambda>e. e_id e = eid) (events (snd (run (svc, db) cs)))
       = filter (\<lambda>e. e_id e = eid) (events db)
     \<and> filter (\<lambda>b. event_id b = eid) (bets (snd (run (svc, db) cs)))
       = filter (\<lambda>b. event_id b = eid) (bets db)"
proof (induction cs arbitrary: svc db)
  case Nil
  then show ?case by (simp add: run_def)
next
  case (Cons c cs)
  obtain svc1 db1 where st: "step (svc, db) c = (svc1, db1)" by (cases "step (svc, db) c")
  from Cons.prems(2) have nc: "\<not> is_resolve_of eid c"
    and ncs: "list_all (\<lambda>c. \<not> is_resolve_of eid c) cs" by simp_all
  from step_keeps_closed[OF Cons.prems(1), of svc c] st
  have c1: "event_closed db1 eid" by simp
  from step_keeps_rows[OF Cons.prems(1) nc, of svc] st
  have r1: "filter (\<lambda>e. e_id e = eid) (events db1) = filter (\<lambda>e. e_id e = eid) (events db)"
    "filter (\<lambda>b. event_id b = eid) (bets db1) = filter (\<lambda>b. event_id b = eid) (bets db)"
    by simp_all
  from Cons.IH[OF c1 ncs, of svc1] r1 st show ?case
    by (simp add: run_def)
qed

text \<open>
  Nothing is paid on the bets of a closed event: a call that is not a resolution of it
  leaves the service and the users as it would, were these bets not in the storage.
\<close>

lemma bets_of_event_without:
  "eid' \<noteq> eid \<Longrightarrow> bets_of_event (without_bets_of db eid) eid' = bets_of_event db eid'"
proof -
  assume ne: "eid' \<noteq> eid"
  have "filter (\<lambda>b. event_id b = eid') (filter (\<lambda>b. event_id b \<noteq> eid) bs)
      = filter (\<lambda>b. event_id b = eid') bs" for bs :: "bet list"
    using ne by (induction bs) auto
  then show ?thesis by (simp add: bets_of_event_def without_bets_of_def)
qed

lemma calculate_odds_same_bets:
  "bets_of_event db0 eid = bets_of_event db eid \<Longrightarrow>
     calculate_odds_based_on_bets svc db0 eid = calculate_odds_based_on_bets svc db eid"
  by (simp add: calculate_odds_based_on_bets_def)

lemma place_bet_Inl_svc:
  assumes "fst (place_bet svc db now t_placed uid eid a outcome) = Inl e"
  shows "fst (snd (place_bet svc db now t_placed uid eid a outcome))
     = (case check_lock svc now uid of Inl x \<Rightarrow> svc | Inr svc1 \<Rightarrow> svc1)"
proof (cases "check_lock svc now uid")
  case (Inl x)
  then show ?thesis by (simp add: place_bet_def)
next
  case (Inr svc1)
  show ?thesis
    using assms Inr
    by (auto simp: place_bet_def Let_def split: sum.splits option.splits if_splits)
qed

lemma place_bet_ignores_other_bets:
  assumes "users db0 = users db" and "events db0 = events db"
    and "bets_of_event db0 eid = bets_of_event db eid"
  shows "fst (snd (place_bet svc db0 now t_placed uid eid a outcome))
           = fst (snd (place_bet svc db now t_placed uid eid a outcome))
     \<and> users (snd (snd (place_bet svc db0 now t_placed uid eid a outcome)))
           = users (snd (snd (place_bet svc db now t_placed uid eid a outcome)))"
proof -
  have o: "calculate_odds_based_on_bets s db0 eid = calculate_odds_based_on_bets s db eid" for s
    using assms(3) by (rule calculate_odds_same_bets)
  show ?thesis
    by (simp add: place_bet_def assms(1,2) o Let_def split: sum.split option.split)
qed

lemma resolve_event_ignores_other_bets:
  assumes "users db0 = users db" and "events db0 = events db"
    and "bets_of_event db0 eid = bets_of_event db eid"
  shows "fst (snd (resolve_event svc db0 clock eid r)) = fst (snd (resolve_event svc db clock eid r))
     \<and> users (snd (snd (resolve_event svc db0 clock eid r)))
           = users (snd (snd (resolve_event svc db clock eid r)))"
  by (simp add: resolve_event_def assms split: sum.split option.split prod.split)

lemma step_ignores_closed_bets:
  assumes "event_closed db eid" and "\<not> is_resolve_of eid c"
  shows "fst (step (svc, without_bets_of db eid) c) = fst (step (svc, db) c)
     \<and> users (snd (step (svc, without_bets_of db eid) c)) = users (snd (step (svc, db) c))"
proof (cases c)
  case (PlaceBet now t_placed uid eid' a outcome)
  have u: "users (without_bets_of db eid) = users db"
    and e: "events (without_bets_of db eid) = events db"
    by (simp_all add: without_bets_of_def)
  show ?thesis
  proof (cases "eid' = eid")
    case False
    from place_bet_ignores_other_bets[OF u e bets_of_event_without[OF False],
        of svc now t_placed uid a outcome]
    show ?thesis using PlaceBet by (simp add: split_beta)
  next
    case True
    from assms(1) e have c0: "event_closed (without_bets_of db eid) eid"
      by (simp add: event_closed_def)
    from place_bet_closed_event[OF assms(1), of svc now t_placed uid a outcome]
    obtain x where f: "fst (place_bet svc db now t_placed uid eid a outcome) = Inl x" ..
    from place_bet_closed_event[OF c0, of svc now t_placed uid a outcome]
    obtain y where f0: "fst (place_bet svc (without_bets_of db eid) now t_placed uid eid a outcome)
        = Inl y" ..
    from place_bet_Inl_svc[OF f] place_bet_Inl_svc[OF f0]
      place_bet_Inl_frame[OF f] place_bet_Inl_frame[OF f0] u
    show ?thesis using PlaceBet True by (simp add: split_beta)
  qed
next
  case (ResolveEvent clock eid' r)
  with assms(2) have ne: "eid' \<noteq> eid" by simp
  have u: "users (without_bets_of db eid) = users db"
    and e: "events (without_bets_of db eid) = events db"
    by (simp_all add: without_bets_of_def)
  from resolve_event_ignores_other_bets[OF u e bets_of_event_without[OF ne], of svc clock r]
  show ?thesis using ResolveEvent by (simp add: split_beta)
next
  case (WithdrawMoney t_check t_lock uid amt)
  then show ?thesis by (simp add: without_bets_of_def)
qed

section \<open>Claims about the dynamic odds\<close>

text \<open>
  C4. For an event with at least one bet, every outcome with a positive staked amount gets
  the odds \<open>max (total staked / staked on the outcome * (1 - 0.05)) 1.1\<close>, the margin
  being the 0.05 the service is built with; no value in the computed odds is below 1.1,
  whatever the stakes; with 100 staked on one outcome and 300 on another (total 400) the
  odds are 3.8 and 400/300 * 0.95, which is within 0.0001 of 1.2667. Floats are read as
  exact rationals.
\<close>

theorem dynamic_odds_formula_and_floor:
  "(bets_of_event db eid \<noteq> [] \<and> bookie_margin svc = 5 / 100
      \<and> 0 < staked_on (bets_of_event db eid) k
    \<longrightarrow> map_of (calculate_odds_based_on_bets svc db eid) k
          = Some (max (total_staked (bets_of_event db eid) / staked_on (bets_of_event db eid) k
                        * (1 - 5 / 100)) (11 / 10)))
   \<and> (\<forall>(k', v) \<in> set (calculate_odds_based_on_bets svc db eid). 11 / 10 \<le> v)
   \<and> (bookie_margin svc = 5 / 100
      \<and> staked_on (bets_of_event db eid) a = 100 \<and> staked_on (bets_of_event db eid) b = 300
      \<and> total_staked (bets_of_event db eid) = 400
    \<longrightarrow> map_of (calculate_odds_based_on_bets svc db eid) a = Some (38 / 10)
      \<and> map_of (calculate_odds_based_on_bets svc db eid) b = Some (400 / 300 * (95 / 100))
      \<and> \<bar>400 / 300 * (95 / 100) - 12667 / 10000 :: rat\<bar> < 1 / 10000)"
proof (intro conjI impI)
  assume h: "bets_of_event db eid \<noteq> [] \<and> bookie_margin svc = 5 / 100
      \<and> 0 < staked_on (bets_of_event db eid) k"
  then have "k \<in> predicted_outcome ` set (bets_of_event db eid)"
    by (simp add: staked_on_positive_mem)
  moreover from h have ne: "bets_of_event db eid \<noteq> []"
    and pos: "0 < staked_on (bets_of_event db eid) k"
    and marg: "bookie_margin svc = 5 / 100" by blast+
  ultimately have e1: "map_of (calculate_odds_based_on_bets svc db eid) k =
      Some (outcome_odd svc (total_staked (bets_of_event db eid))
              (staked_on (bets_of_event db eid) k))"
    by (simp add: map_of_odds_bets)
  show "map_of (calculate_odds_based_on_bets svc db eid) k
          = Some (max (total_staked (bets_of_event db eid) / staked_on (bets_of_event db eid) k
                        * (1 - 5 / 100)) (11 / 10))"
    by (simp only: e1 outcome_odd_pos[OF pos marg])
next
  show "\<forall>(k', v) \<in> set (calculate_odds_based_on_bets svc db eid). 11 / 10 \<le> v"
    using odds_values_floor by blast
next
  assume h: "bookie_margin svc = 5 / 100
      \<and> staked_on (bets_of_event db eid) a = 100 \<and> staked_on (bets_of_event db eid) b = 300
      \<and> total_staked (bets_of_event db eid) = 400"
  then have ma: "a \<in> predicted_outcome ` set (bets_of_event db eid)"
    and mb: "b \<in> predicted_outcome ` set (bets_of_event db eid)"
    by (simp_all add: staked_on_positive_mem)
  then have ne: "bets_of_event db eid \<noteq> []" by auto
  from h have m: "bookie_margin svc = 5 / 100" by blast
  have "outcome_odd svc 400 100 = 38 / 10" "outcome_odd svc 400 300 = 400 / 300 * (95 / 100)"
    by (simp_all add: outcome_odd_pos[OF _ m])
  with h ma mb
  show "map_of (calculate_odds_based_on_bets svc db eid) a = Some (38 / 10)"
    and "map_of (calculate_odds_based_on_bets svc db eid) b = Some (400 / 300 * (95 / 100))"
    by (simp_all add: map_of_odds_bets[OF ne])
  show "\<bar>400 / 300 * (95 / 100) - 12667 / 10000 :: rat\<bar> < 1 / 10000" by simp
qed


theorem dynamic_odds_formula_and_floor_witness:
  "bets_of_event odds_db 1 \<noteq> [] \<and> bookie_margin staked_svc = 5 / 100
   \<and> 0 < staked_on (bets_of_event odds_db 1) ''team_a_won''
   \<and> staked_on (bets_of_event odds_db 1) ''team_a_won'' = 100
   \<and> staked_on (bets_of_event odds_db 1) ''team_b_won'' = 300
   \<and> total_staked (bets_of_event odds_db 1) = 400
   \<and> map_of (calculate_odds_based_on_bets staked_svc odds_db 1) ''team_a_won''
        = Some (38 / 10)
   \<and> map_of (calculate_odds_based_on_bets staked_svc odds_db 1) ''team_b_won''
        = Some (19 / 15)
   \<and> list_all (\<lambda>(k, v). 11 / 10 \<le> v)
         (calculate_odds_based_on_bets staked_svc odds_db 1)"
proof -
  have bs: "bets_of_event odds_db 1 = [stake_a, stake_b]"
    by (simp add: bets_of_event_def odds_db_def stake_a_def stake_b_def)
  have h: "bets_of_event odds_db 1 \<noteq> []" "bookie_margin staked_svc = 5 / 100"
    "staked_on (bets_of_event odds_db 1) ''team_a_won'' = 100"
    "staked_on (bets_of_event odds_db 1) ''team_b_won'' = 300"
    "total_staked (bets_of_event odds_db 1) = 400"
    unfolding bs
    by (simp_all add: staked_on_def total_staked_def stake_a_def stake_b_def
          staked_svc_def BettingService_init_def)
  show ?thesis
    using h dynamic_odds_formula_and_floor
      [of odds_db 1 staked_svc "''team_a_won''" "''team_a_won''" "''team_b_won''"]
    by (simp add: list_all_iff)
qed

text \<open>
  C5. With no bet on the event the computed odds are exactly
  \<open>{team_a_won: 2.0, team_b_won: 2.0, draw: 3.0}\<close>; for every event the three standard
  keys are present in the computed odds, and a standard key that no bet of the event
  predicts carries its default, 2.0, 2.0 and 3.0.
\<close>

theorem default_odds_and_standard_keys:
  "(bets_of_event db eid = [] \<longrightarrow>
      calculate_odds_based_on_bets svc db eid
        = [(''team_a_won'', 2), (''team_b_won'', 2), (''draw'', 3)])
   \<and> (\<forall>(k, v) \<in> {(''team_a_won'', 2), (''team_b_won'', 2), (''draw'', 3 :: pyfloat)}.
        map_of (calculate_odds_based_on_bets svc db eid) k \<noteq> None
        \<and> (k \<notin> predicted_outcome ` set (bets_of_event db eid)
            \<longrightarrow> map_of (calculate_odds_based_on_bets svc db eid) k = Some v))"
proof (cases "bets_of_event db eid = []")
  case True
  then show ?thesis by (simp add: calculate_odds_based_on_bets_def)
next
  case False
  then show ?thesis by (simp add: map_of_odds_bets)
qed

theorem default_odds_and_standard_keys_witness:
  "bets_of_event demo_db 1 = []
   \<and> calculate_odds_based_on_bets BettingService_init demo_db 1
        = [(''team_a_won'', 2), (''team_b_won'', 2), (''draw'', 3)]
   \<and> ''draw'' \<notin> predicted_outcome ` set (bets_of_event odds_db 1)
   \<and> map_of (calculate_odds_based_on_bets staked_svc odds_db 1) ''draw'' = Some 3"
proof -
  have h1: "bets_of_event demo_db 1 = []"
    by (simp add: bets_of_event_def demo_db_def)
  have h2: "''draw'' \<notin> predicted_outcome ` set (bets_of_event odds_db 1)"
    by (simp add: bets_of_event_def odds_db_def stake_a_def stake_b_def)
  show ?thesis
    using h1 h2 default_odds_and_standard_keys[of demo_db 1 BettingService_init]
      default_odds_and_standard_keys[of odds_db 1 staked_svc]
    by simp
qed

section \<open>Claims about withdrawals\<close>

text \<open>
  C7. \<open>withdraw_money\<close> changes nothing that is stored: a call leaves the storage, with
  every user's balance and total_deposited, as it was, and leaves the running deposit
  total of the service as it was; the service after the call is the service before it
  with another lock table; a call that succeeds returns
  \<open>{"status": "withdrawal_initiated", "lock_duration": 30}\<close>.
\<close>

theorem withdraw_money_only_locks:
  "snd (step (svc, db) (WithdrawMoney t_check t_lock uid amt)) = db
   \<and> fst (step (svc, db) (WithdrawMoney t_check t_lock uid amt))
        = snd (withdraw_money svc t_check t_lock uid amt)
   \<and> (\<exists>m. snd (withdraw_money svc t_check t_lock uid amt) = svc\<lparr>locked_users := m\<rparr>)
   \<and> total_service_deposit (snd (withdraw_money svc t_check t_lock uid amt))
        = total_service_deposit svc
   \<and> (\<forall>w. fst (withdraw_money svc t_check t_lock uid amt) = Inr w
          \<longrightarrow> w = \<lparr>status = ''withdrawal_initiated'', lock_duration = 30\<rparr>)"
proof (cases "check_lock svc t_check uid")
  case (Inl e)
  then show ?thesis
    by (auto simp: withdraw_money_def intro: exI[of _ "locked_users svc"])
next
  case (Inr svc1)
  from check_lock_margin[OF Inr] have "svc1 = svc\<lparr>locked_users := (locked_users svc)(uid := None)\<rparr>"
    by (cases svc1, cases svc) simp
  with Inr show ?thesis
    by (auto simp: withdraw_money_def)
qed

theorem withdraw_money_only_locks_witness:
  "snd (step (BettingService_init, demo_db) (WithdrawMoney 5 7 1 40)) = demo_db
   \<and> fst (withdraw_money BettingService_init 5 7 1 40)
        = Inr \<lparr>status = ''withdrawal_initiated'', lock_duration = 30\<rparr>
   \<and> balance (hd (users (snd (step (BettingService_init, demo_db) (WithdrawMoney 5 7 1 40))))) = 100"
  using withdraw_money_only_locks[of BettingService_init demo_db 5 7 1 40]
  by (simp add: withdraw_money_def check_lock_def BettingService_init_def demo_db_def alice_def)

text \<open>
  C6. A \<open>withdraw_money\<close> that succeeds leaves the user locked until exactly 30 seconds
  (30 000 000 microseconds) after the clock value it read when it set the lock. While
  the clock is before that time, another \<open>withdraw_money\<close> and a \<open>place_bet\<close> for the
  user both raise "User is temporarily locked due to withdrawal action" and change
  nothing. From that time on, \<open>withdraw_money\<close> succeeds again and sets a new lock 30
  seconds after its own clock value, and \<open>place_bet\<close> does what it does for a user with
  no lock, the expired entry being gone from the lock table afterwards.
\<close>

theorem withdrawal_lock_window:
  assumes "withdraw_money svc t_check t_lock uid amt = (Inr w, svc')"
  shows "locked_users svc' uid = Some (t_lock + timedelta_seconds 30)
     \<and> timedelta_seconds 30 = 30 * 1000000
     \<and> (early < t_lock + timedelta_seconds 30 \<longrightarrow>
          withdraw_money svc' early t2 uid amt2
            = (Inl (Exception ''User is temporarily locked due to withdrawal action''), svc')
          \<and> place_bet svc' db early t_placed uid eid a outcome
            = (Inl (Exception ''User is temporarily locked due to withdrawal action''), svc', db))
     \<and> (t_lock + timedelta_seconds 30 \<le> late \<longrightarrow>
          withdraw_money svc' late t2 uid amt2
            = (Inr \<lparr>status = ''withdrawal_initiated'', lock_duration = 30\<rparr>,
               svc'\<lparr>locked_users := (locked_users svc')(uid \<mapsto> t2 + timedelta_seconds 30)\<rparr>)
          \<and> place_bet svc' db late t_placed uid eid a outcome
            = place_bet (svc'\<lparr>locked_users := (locked_users svc')(uid := None)\<rparr>) db late
                t_placed uid eid a outcome
          \<and> locked_users (fst (snd (place_bet svc' db late t_placed uid eid a outcome))) uid
            = None)"
proof -
  from assms have lk: "locked_users svc' uid = Some (t_lock + timedelta_seconds 30)"
    by (auto simp: withdraw_money_def split: sum.splits)
  have early: "withdraw_money svc' early t2 uid amt2
            = (Inl (Exception ''User is temporarily locked due to withdrawal action''), svc')
          \<and> place_bet svc' db early t_placed uid eid a outcome
            = (Inl (Exception ''User is temporarily locked due to withdrawal action''), svc', db)"
    if "early < t_lock + timedelta_seconds 30"
    using check_lock_active[OF lk that]
    by (simp add: withdraw_money_def place_bet_def)
  have late: "withdraw_money svc' late t2 uid amt2
            = (Inr \<lparr>status = ''withdrawal_initiated'', lock_duration = 30\<rparr>,
               svc'\<lparr>locked_users := (locked_users svc')(uid \<mapsto> t2 + timedelta_seconds 30)\<rparr>)
          \<and> place_bet svc' db late t_placed uid eid a outcome
            = place_bet (svc'\<lparr>locked_users := (locked_users svc')(uid := None)\<rparr>) db late
                t_placed uid eid a outcome
          \<and> locked_users (fst (snd (place_bet svc' db late t_placed uid eid a outcome))) uid
            = None"
    if "t_lock + timedelta_seconds 30 \<le> late"
  proof -
    note ex = check_lock_expired[OF lk that]
    have ab: "check_lock (svc'\<lparr>locked_users := (locked_users svc')(uid := None)\<rparr>) late uid
        = Inr (svc'\<lparr>locked_users := (locked_users svc')(uid := None)\<rparr>)"
      by (simp add: check_lock_absent)
    have w: "withdraw_money svc' late t2 uid amt2
            = (Inr \<lparr>status = ''withdrawal_initiated'', lock_duration = 30\<rparr>,
               svc'\<lparr>locked_users := (locked_users svc')(uid \<mapsto> t2 + timedelta_seconds 30)\<rparr>)"
      by (simp add: withdraw_money_def ex)
    have p: "place_bet svc' db late t_placed uid eid a outcome
            = place_bet (svc'\<lparr>locked_users := (locked_users svc')(uid := None)\<rparr>) db late
                t_placed uid eid a outcome"
      by (simp only: place_bet_def ex ab sum.case)
    have c: "locked_users (fst (snd (place_bet svc' db late t_placed uid eid a outcome))) uid = None"
      by (rule place_bet_clears_lock[OF ex])
    from w p c show ?thesis by blast
  qed
  have td: "timedelta_seconds 30 = 30 * 1000000"
    by (simp add: timedelta_seconds_def)
  from lk td early late show ?thesis by blast
qed

theorem withdrawal_lock_window_witness:
  "withdraw_money BettingService_init 0 1000000 1 40
     = (Inr \<lparr>status = ''withdrawal_initiated'', lock_duration = 30\<rparr>, lock_svc)
   \<and> locked_users lock_svc 1 = Some 31000000
   \<and> (20000000 :: int) < 1000000 + timedelta_seconds 30
   \<and> fst (withdraw_money lock_svc 20000000 31000002 1 10)
        = Inl (Exception ''User is temporarily locked due to withdrawal action'')
   \<and> fst (place_bet lock_svc demo_db 20000000 31000001 1 1 25 ''team_a_won'')
        = Inl (Exception ''User is temporarily locked due to withdrawal action'')
   \<and> 1000000 + timedelta_seconds 30 \<le> (31000000 :: int)
   \<and> fst (withdraw_money lock_svc 31000000 31000002 1 10)
        = Inr \<lparr>status = ''withdrawal_initiated'', lock_duration = 30\<rparr>
   \<and> locked_users (snd (withdraw_money lock_svc 31000000 31000002 1 10)) 1 = Some 61000002
   \<and> locked_users (fst (snd (place_bet lock_svc demo_db 31000000 31000001 1 1 25 ''team_a_won''))) 1
        = None
   \<and> map amount (bets (snd (snd (place_bet lock_svc demo_db 31000000 31000001 1 1 25 ''team_a_won''))))
        = [25]"
proof -
  have h: "withdraw_money BettingService_init 0 1000000 1 40
     = (Inr \<lparr>status = ''withdrawal_initiated'', lock_duration = 30\<rparr>, lock_svc)"
    by (simp add: withdraw_money_def check_lock_def BettingService_init_def lock_svc_def
          timedelta_seconds_def)
  have t: "(20000000 :: int) < 1000000 + timedelta_seconds 30"
    "1000000 + timedelta_seconds 30 \<le> (31000000 :: int)"
    by (simp_all add: timedelta_seconds_def)
  have p: "map amount (bets (snd (snd (place_bet
             (lock_svc\<lparr>locked_users := (locked_users lock_svc)(1 := None)\<rparr>) demo_db 31000000
             31000001 1 1 25 ''team_a_won'')))) = [25]"
    by (simp add: place_bet_def check_lock_def scalar_one_or_none_def demo_db_def alice_def
          derby_def calculate_odds_based_on_bets_def bets_of_event_def Let_def)
  note w = withdrawal_lock_window[OF h, where early = 20000000 and late = 31000000
      and db = demo_db and eid = 1 and a = 25 and outcome = "''team_a_won''" and ?amt2.0 = 10
      and ?t2.0 = 31000002 and t_placed = 31000001]
  from w have lk: "locked_users lock_svc 1 = Some (1000000 + timedelta_seconds 30)"
    by blast
  from w t(1) have e1: "withdraw_money lock_svc 20000000 31000002 1 10
      = (Inl (Exception ''User is temporarily locked due to withdrawal action''), lock_svc)"
    and e2: "place_bet lock_svc demo_db 20000000 31000001 1 1 25 ''team_a_won''
      = (Inl (Exception ''User is temporarily locked due to withdrawal action''), lock_svc,
         demo_db)"
    by blast+
  from w t(2) have l1: "withdraw_money lock_svc 31000000 31000002 1 10
      = (Inr \<lparr>status = ''withdrawal_initiated'', lock_duration = 30\<rparr>,
         lock_svc\<lparr>locked_users := (locked_users lock_svc)(1 \<mapsto> 31000002 + timedelta_seconds 30)\<rparr>)"
    and l2: "place_bet lock_svc demo_db 31000000 31000001 1 1 25 ''team_a_won''
      = place_bet (lock_svc\<lparr>locked_users := (locked_users lock_svc)(1 := None)\<rparr>) demo_db
          31000000 31000001 1 1 25 ''team_a_won''"
    and l3: "locked_users (fst (snd (place_bet lock_svc demo_db 31000000 31000001 1 1 25
          ''team_a_won''))) 1 = None"
    by blast+
  from p l2 have l4: "map amount (bets (snd (snd (place_bet lock_svc demo_db 31000000 31000001
      1 1 25 ''team_a_won'')))) = [25]"
    by (simp only:)
  show ?thesis
    unfolding h e1 e2 l1 l3 l4 lk by (simp add: timedelta_seconds_def)
qed

section \<open>Claims about placing a bet\<close>



text \<open>
  C10, as stated, fails in its last part. A negative amount does not always strictly
  increase the balance: line 140 is a subtraction of doubles, and for alice (balance
  100.0) and the amount \<open>-2^-60\<close> the call is accepted, the bet is stored with that
  amount, and the balance after the call is 100.0 again, the difference being rounded
  away.
\<close>

theorem tiny_negative_amount_counterexample:
  "tiny_amount < 0
   \<and> ieee_double tiny_amount = tiny_amount
   \<and> map balance (users demo_db) = [100]
   \<and> ieee_double 100 = 100
   \<and> map amount
        (bets (snd (snd (place_bet_rounded ieee_double BettingService_init demo_db 5 6 1 1
                           tiny_amount ''draw''))))
        = [tiny_amount]
   \<and> map balance
        (users (snd (snd (place_bet_rounded ieee_double BettingService_init demo_db 5 6 1 1
                            tiny_amount ''draw''))))
        = [100]
   \<and> map total_deposited
        (users (snd (snd (place_bet_rounded ieee_double BettingService_init demo_db 5 6 1 1
                            tiny_amount ''draw''))))
        = [tiny_amount]"
proof -
  have c: "check_lock BettingService_init 5 1 = Inr BettingService_init"
    by (simp add: check_lock_def BettingService_init_def)
  have h: "filter (\<lambda>u. u_id u = 1) (users demo_db) = [alice]"
    "\<not> balance alice < tiny_amount"
    "filter (\<lambda>e. e_id e = 1) (events demo_db) = [derby]"
    "is_active derby" "\<not> is_finished derby"
    "map_of (calculate_odds_based_on_bets BettingService_init demo_db 1) ''draw'' = Some 3"
    by (simp_all add: demo_db_def alice_def derby_def tiny_amount_def
          calculate_odds_based_on_bets_def bets_of_event_def)
  note eq = place_bet_rounded_success[OF c h, of ieee_double 6]
  have v: "balance alice = 100" "total_deposited alice = 0" "bets demo_db = []"
    "users demo_db = [alice]" "u_id alice = 1"
    by (simp_all add: alice_def demo_db_def)
  have r1: "ieee_double (100 - tiny_amount) = 100"
    unfolding tiny_amount_def by code_simp
  have r2: "ieee_double (0 + tiny_amount) = tiny_amount"
    unfolding tiny_amount_def by code_simp
  have r3: "ieee_double tiny_amount = tiny_amount"
    unfolding tiny_amount_def by code_simp
  have r4: "ieee_double 100 = 100"
    by code_simp
  have n: "tiny_amount < 0" by (simp add: tiny_amount_def)
  show ?thesis
    using n r3 r4 by (simp add: eq v r1 r2)
qed

text \<open>
  C10, amended. \<open>place_bet\<close> compares the amount with the balance and with nothing else:
  neither with zero nor with the limits 1.0 and 10000.0 of the configuration. For a
  user who is not under an active lock, an event that is open and an outcome that has
  odds, every amount that does not exceed the balance is accepted, whatever its sign
  and size: the bet is stored with that amount, the balance becomes
  \<open>balance - amount\<close> and total_deposited \<open>total_deposited + amount\<close>, in double
  arithmetic the nearest doubles to them. A negative amount therefore never lowers the
  balance and never raises total_deposited; the balance is strictly larger after the
  call unless the amount is lost in the rounding of the subtraction.
\<close>

theorem place_bet_accepts_any_amount_within_balance:
  assumes "\<forall>t. locked_users svc uid = Some t \<longrightarrow> t \<le> now"
    and "filter (\<lambda>u. u_id u = uid) (users db) = [usr]"
    and "A \<le> balance usr"
    and "filter (\<lambda>e. e_id e = eid) (events db) = [ev]"
    and "is_active ev" and "\<not> is_finished ev"
    and "map_of (calculate_odds_based_on_bets svc db eid) outcome = Some od"
  shows "(\<exists>b. fst (place_bet svc db now t_placed uid eid A outcome) = Inr b
            \<and> amount b = A \<and> odds b = od \<and> predicted_outcome b = outcome
            \<and> user_id b = uid \<and> event_id b = eid
            \<and> bets (snd (snd (place_bet svc db now t_placed uid eid A outcome)))
                = bets db @ [b])
     \<and> filter (\<lambda>u. u_id u = uid)
          (users (snd (snd (place_bet svc db now t_placed uid eid A outcome))))
         = [usr\<lparr>balance := balance usr - A, total_deposited := total_deposited usr + A\<rparr>]
     \<and> total_service_deposit (fst (snd (place_bet svc db now t_placed uid eid A outcome)))
         = total_service_deposit svc + A
     \<and> (A \<le> 0 \<or> A < min_bet_amount \<or> max_bet_amount < A \<longrightarrow>
          (\<exists>b. fst (place_bet svc db now t_placed uid eid A outcome) = Inr b \<and> amount b = A))
     \<and> (\<exists>b. fst (place_bet_rounded ieee_double svc db now t_placed uid eid A outcome) = Inr b
            \<and> amount b = A \<and> predicted_outcome b = outcome
            \<and> user_id b = uid \<and> event_id b = eid
            \<and> bets (snd (snd (place_bet_rounded ieee_double svc db now t_placed uid eid A
                                 outcome)))
                = bets db @ [b])
     \<and> filter (\<lambda>u. u_id u = uid)
          (users (snd (snd (place_bet_rounded ieee_double svc db now t_placed uid eid A outcome))))
         = [usr\<lparr>balance := ieee_double (balance usr - A),
                total_deposited := ieee_double (total_deposited usr + A)\<rparr>]
     \<and> (A < 0 \<and> ieee_double (balance usr) = balance usr \<longrightarrow>
          list_all (\<lambda>u'. balance usr \<le> balance u')
            (filter (\<lambda>u. u_id u = uid)
               (users (snd (snd (place_bet_rounded ieee_double svc db now t_placed uid eid A
                                   outcome))))))
     \<and> (A < 0 \<and> ieee_double (total_deposited usr) = total_deposited usr \<longrightarrow>
          list_all (\<lambda>u'. total_deposited u' \<le> total_deposited usr)
            (filter (\<lambda>u. u_id u = uid)
               (users (snd (snd (place_bet_rounded ieee_double svc db now t_placed uid eid A
                                   outcome))))))"
proof -
  obtain svc1 where c: "check_lock svc now uid = Inr svc1"
  proof (cases "locked_users svc uid")
    case None
    from check_lock_absent[OF None] that show ?thesis by blast
  next
    case (Some t)
    with assms(1) have "t \<le> now" by simp
    from check_lock_expired[OF Some this] that show ?thesis by blast
  qed
  from assms(3) have nb: "\<not> balance usr < A" by simp
  note eq = place_bet_success[OF c assms(2) nb assms(4-7), of t_placed]
  note eqr = place_bet_rounded_success[OF c assms(2) nb assms(4-7), of ieee_double t_placed]
  let ?usr' = "usr\<lparr>balance := balance usr - A, total_deposited := total_deposited usr + A\<rparr>"
  let ?usr'' = "usr\<lparr>balance := ieee_double (balance usr - A),
                     total_deposited := ieee_double (total_deposited usr + A)\<rparr>"
  have id: "u_id ?usr' = uid" and idr: "u_id ?usr'' = uid"
    using filter_singleton_key[OF assms(2)] by simp_all
  have f: "filter (\<lambda>u. u_id u = uid)
          (users (snd (snd (place_bet svc db now t_placed uid eid A outcome)))) = [?usr']"
    using replace_by_key(1)[OF assms(2) id] by (simp add: eq)
  have t: "total_service_deposit (fst (snd (place_bet svc db now t_placed uid eid A outcome)))
         = total_service_deposit svc + A"
    using check_lock_margin[OF c] by (simp add: eq)
  have b: "\<exists>b. fst (place_bet svc db now t_placed uid eid A outcome) = Inr b
            \<and> amount b = A \<and> odds b = od \<and> predicted_outcome b = outcome
            \<and> user_id b = uid \<and> event_id b = eid
            \<and> bets (snd (snd (place_bet svc db now t_placed uid eid A outcome)))
                = bets db @ [b]"
    by (simp add: eq)
  from b have l: "A \<le> 0 \<or> A < min_bet_amount \<or> max_bet_amount < A \<longrightarrow>
          (\<exists>b. fst (place_bet svc db now t_placed uid eid A outcome) = Inr b \<and> amount b = A)"
    by blast
  have br: "\<exists>b. fst (place_bet_rounded ieee_double svc db now t_placed uid eid A outcome) = Inr b
            \<and> amount b = A \<and> predicted_outcome b = outcome
            \<and> user_id b = uid \<and> event_id b = eid
            \<and> bets (snd (snd (place_bet_rounded ieee_double svc db now t_placed uid eid A
                                 outcome)))
                = bets db @ [b]"
    by (simp add: eqr)
  have fr: "filter (\<lambda>u. u_id u = uid)
          (users (snd (snd (place_bet_rounded ieee_double svc db now t_placed uid eid A outcome))))
         = [?usr'']"
    using replace_by_key(1)[OF assms(2) idr] by (simp add: eqr)
  have m1: "A < 0 \<and> ieee_double (balance usr) = balance usr \<longrightarrow>
          list_all (\<lambda>u'. balance usr \<le> balance u')
            (filter (\<lambda>u. u_id u = uid)
               (users (snd (snd (place_bet_rounded ieee_double svc db now t_placed uid eid A
                                   outcome)))))"
  proof
    assume h: "A < 0 \<and> ieee_double (balance usr) = balance usr"
    then have "balance usr \<le> balance usr - A" by simp
    from ieee_double_mono[OF this] h
    have "balance usr \<le> ieee_double (balance usr - A)" by simp
    then show "list_all (\<lambda>u'. balance usr \<le> balance u')
            (filter (\<lambda>u. u_id u = uid)
               (users (snd (snd (place_bet_rounded ieee_double svc db now t_placed uid eid A
                                   outcome)))))"
      unfolding fr by simp
  qed
  have m2: "A < 0 \<and> ieee_double (total_deposited usr) = total_deposited usr \<longrightarrow>
          list_all (\<lambda>u'. total_deposited u' \<le> total_deposited usr)
            (filter (\<lambda>u. u_id u = uid)
               (users (snd (snd (place_bet_rounded ieee_double svc db now t_placed uid eid A
                                   outcome)))))"
  proof
    assume h: "A < 0 \<and> ieee_double (total_deposited usr) = total_deposited usr"
    then have "total_deposited usr + A \<le> total_deposited usr" by simp
    from ieee_double_mono[OF this] h
    have "ieee_double (total_deposited usr + A) \<le> total_deposited usr" by simp
    then show "list_all (\<lambda>u'. total_deposited u' \<le> total_deposited usr)
            (filter (\<lambda>u. u_id u = uid)
               (users (snd (snd (place_bet_rounded ieee_double svc db now t_placed uid eid A
                                   outcome)))))"
      unfolding fr by simp
  qed
  from b f t l br fr m1 m2 show ?thesis by blast
qed

theorem place_bet_accepts_any_amount_within_balance_witness:
  "filter (\<lambda>u. u_id u = 1) (users demo_db) = [alice]
   \<and> (- 50) \<le> balance alice \<and> (- 50 :: pyfloat) < 0 \<and> (- 50) < min_bet_amount
   \<and> map amount (bets (snd (snd (place_bet BettingService_init demo_db 5 6 1 1 (- 50) ''draw''))))
        = [- 50]
   \<and> filter (\<lambda>u. u_id u = 1)
        (users (snd (snd (place_bet BettingService_init demo_db 5 6 1 1 (- 50) ''draw''))))
        = [alice\<lparr>balance := balance alice - (- 50),
                  total_deposited := total_deposited alice + (- 50)\<rparr>]
   \<and> balance alice = 100 \<and> balance alice - (- 50) = 150
   \<and> total_deposited alice + (- 50) = - 50
   \<and> ieee_double (balance alice) = balance alice
   \<and> ieee_double (total_deposited alice) = total_deposited alice
   \<and> map balance
        (filter (\<lambda>u. u_id u = 1)
          (users (snd (snd (place_bet_rounded ieee_double BettingService_init demo_db 5 6 1 1
                              (- 50) ''draw'')))))
        = [150]
   \<and> list_all (\<lambda>u'. balance alice \<le> balance u')
        (filter (\<lambda>u. u_id u = 1)
          (users (snd (snd (place_bet_rounded ieee_double BettingService_init demo_db 5 6 1 1
                              (- 50) ''draw'')))))"
proof -
  have h: "\<forall>t. locked_users BettingService_init 1 = Some t \<longrightarrow> t \<le> 5"
    "filter (\<lambda>u. u_id u = 1) (users demo_db) = [alice]"
    "(- 50) \<le> balance alice"
    "filter (\<lambda>e. e_id e = 1) (events demo_db) = [derby]"
    "is_active derby" "\<not> is_finished derby"
    "map_of (calculate_odds_based_on_bets BettingService_init demo_db 1) ''draw'' = Some 3"
    by (simp_all add: BettingService_init_def demo_db_def alice_def derby_def
          calculate_odds_based_on_bets_def bets_of_event_def)
  have a: "balance alice = 100" "balance alice - (- 50) = 150"
    "total_deposited alice + (- 50) = - 50" "(- 50) < min_bet_amount" "bets demo_db = []"
    "total_deposited alice = 0"
    by (simp_all add: alice_def min_bet_amount_def demo_db_def)
  have r: "ieee_double 100 = 100" "ieee_double 0 = 0" "ieee_double 150 = 150"
    "ieee_double (- 50) = - 50"
    by code_simp+
  have i: "ieee_double (balance alice) = balance alice"
    "ieee_double (total_deposited alice) = total_deposited alice"
    by (simp_all only: a r)
  have "ieee_double (balance alice - (- 50)) = ieee_double 150"
    by (simp only: a(2))
  with r(3) have i3: "ieee_double (balance alice - (- 50)) = 150" by simp
  note t = place_bet_accepts_any_amount_within_balance[OF h, of 6]
  from t have e: "\<exists>b. fst (place_bet BettingService_init demo_db 5 6 1 1 (- 50) ''draw'') = Inr b
            \<and> amount b = - 50
            \<and> bets (snd (snd (place_bet BettingService_init demo_db 5 6 1 1 (- 50) ''draw'')))
                = bets demo_db @ [b]"
    and f: "filter (\<lambda>u. u_id u = 1)
        (users (snd (snd (place_bet BettingService_init demo_db 5 6 1 1 (- 50) ''draw''))))
        = [alice\<lparr>balance := balance alice - (- 50),
                  total_deposited := total_deposited alice + (- 50)\<rparr>]"
    and fr: "filter (\<lambda>u. u_id u = 1)
          (users (snd (snd (place_bet_rounded ieee_double BettingService_init demo_db 5 6 1 1
                              (- 50) ''draw''))))
         = [alice\<lparr>balance := ieee_double (balance alice - (- 50)),
                   total_deposited := ieee_double (total_deposited alice + (- 50))\<rparr>]"
    by blast+
  have n: "(- 50 :: pyfloat) < 0" by simp
  from t n i(1) have m: "list_all (\<lambda>u'. balance alice \<le> balance u')
        (filter (\<lambda>u. u_id u = 1)
          (users (snd (snd (place_bet_rounded ieee_double BettingService_init demo_db 5 6 1 1
                              (- 50) ''draw'')))))"
    by blast
  from e a(5) have am: "map amount (bets (snd (snd (place_bet BettingService_init demo_db 5 6 1 1
      (- 50) ''draw'')))) = [- 50]"
    by auto
  have fb: "map balance
        (filter (\<lambda>u. u_id u = 1)
          (users (snd (snd (place_bet_rounded ieee_double BettingService_init demo_db 5 6 1 1
                              (- 50) ''draw''))))) = [150]"
    unfolding fr i3 by simp
  from h(2,3) n a(4) am f a(1,2,3) i(1,2) fb m show ?thesis by blast
qed

section \<open>Claims about resolving an event\<close>



section \<open>Claims about token decoding\<close>

text \<open>
  C8. Decoding yields a role only when \<open>jwt.decode\<close> returned a payload (the library
  raises \<open>JWTError\<close> for a bad signature or a malformed token and its subclass
  \<open>ExpiredSignatureError\<close> for an expired one) and both the subject and the role claim
  are there; a token whose decoding raises one of these, or whose payload lacks the
  subject or the role, yields \<open>None\<close>; on \<open>None\<close> the authorization dependency raises
  the 401 "Could not validate credentials", and on a role it returns \<open>{"role": role}\<close>.
\<close>

theorem token_role_or_unauthenticated:
  "(get_current_user_role dec token = Inr (Some r)
      \<longleftrightarrow> (\<exists>p. dec token = Inr p \<and> payload_get p ''sub'' \<noteq> None
                \<and> payload_get p ''role'' = Some r))
   \<and> (dec bad = Inl e \<and> e \<in> {JWTError, ExpiredSignatureError, JWTClaimsError}
        \<longrightarrow> get_current_user_role dec bad = Inr None
            \<and> get_current_user dec bad
                 = Inl (HTTPException 401 ''Could not validate credentials''))
   \<and> (dec partial = Inr q \<and> (q ''sub'' = None \<or> q ''role'' = None)
        \<longrightarrow> get_current_user_role dec partial = Inr None
            \<and> get_current_user dec partial
                 = Inl (HTTPException 401 ''Could not validate credentials''))
   \<and> (get_current_user_role dec token = Inr (Some r)
        \<longrightarrow> get_current_user dec token = Inr [(''role'', r)])
   \<and> (get_current_user_role dec any = Inr None
        \<longrightarrow> get_current_user dec any
              = Inl (HTTPException 401 ''Could not validate credentials''))"
proof (intro conjI impI)
  show "get_current_user_role dec token = Inr (Some r)
      \<longleftrightarrow> (\<exists>p. dec token = Inr p \<and> payload_get p ''sub'' \<noteq> None
                \<and> payload_get p ''role'' = Some r)"
    by (cases "dec token") (auto simp: get_current_user_role_def Let_def)
next
  assume h: "dec bad = Inl e \<and> e \<in> {JWTError, ExpiredSignatureError, JWTClaimsError}"
  then have "is_JWTError e" by auto
  with h show "get_current_user_role dec bad = Inr None"
    by (simp add: get_current_user_role_def)
  then show "get_current_user dec bad = Inl (HTTPException 401 ''Could not validate credentials'')"
    by (simp add: get_current_user_def)
next
  assume h: "dec partial = Inr q \<and> (q ''sub'' = None \<or> q ''role'' = None)"
  then have "payload_get q ''sub'' = None \<or> payload_get q ''role'' = None"
    by (auto simp: payload_get_def)
  with h show "get_current_user_role dec partial = Inr None"
    by (auto simp: get_current_user_role_def Let_def)
  then show "get_current_user dec partial
      = Inl (HTTPException 401 ''Could not validate credentials'')"
    by (simp add: get_current_user_def)
next
  assume "get_current_user_role dec token = Inr (Some r)"
  then show "get_current_user dec token = Inr [(''role'', r)]"
    by (simp add: get_current_user_def)
next
  assume "get_current_user_role dec any = Inr None"
  then show "get_current_user dec any
      = Inl (HTTPException 401 ''Could not validate credentials'')"
    by (simp add: get_current_user_def)
qed

theorem token_role_or_unauthenticated_witness:
  "demo_decode ''expired'' = Inl ExpiredSignatureError
   \<and> get_current_user_role demo_decode ''expired'' = Inr None
   \<and> get_current_user demo_decode ''expired''
        = Inl (HTTPException 401 ''Could not validate credentials'')
   \<and> demo_decode ''norole'' = Inr [''sub'' \<mapsto> JString ''alice'']
   \<and> get_current_user demo_decode ''norole''
        = Inl (HTTPException 401 ''Could not validate credentials'')
   \<and> get_current_user_role demo_decode ''good'' = Inr (Some (JString ''admin''))
   \<and> get_current_user demo_decode ''good'' = Inr [(''role'', JString ''admin'')]"
proof -
  have h1: "demo_decode ''expired'' = Inl ExpiredSignatureError"
    and h2: "demo_decode ''norole'' = Inr [''sub'' \<mapsto> JString ''alice'']"
    and h3: "demo_decode ''good''
               = Inr [''sub'' \<mapsto> JString ''alice'', ''role'' \<mapsto> JString ''admin'']"
    by (simp_all add: demo_decode_def)
  have h4: "payload_get [''sub'' \<mapsto> JString ''alice'', ''role'' \<mapsto> JString ''admin''] ''sub''
              \<noteq> None"
    and h5: "payload_get [''sub'' \<mapsto> JString ''alice'', ''role'' \<mapsto> JString ''admin''] ''role''
              = Some (JString ''admin'')"
    by (simp_all add: payload_get_def)
  show ?thesis
    using h1 h2 h3 h4 h5
      token_role_or_unauthenticated[of demo_decode "''good''" "JString ''admin''" "''expired''"
        ExpiredSignatureError "''norole''" "[''sub'' \<mapsto> JString ''alice'']" "''expired''"]
    by simp
qed

section \<open>Claims about the life cycle of an event\<close>

text \<open>
  C3, as stated, fails. \<open>resolve_event\<close> does not look at \<open>is_finished\<close>: after the event
  of the example has been resolved as won by team A (alice is paid 200), a second
  \<open>resolve_event\<close> with team B succeeds, replaces the result and pays bob 600; a second
  one with team A pays alice her 200 again. Both leave the event finished.
\<close>

theorem resolve_event_twice_counterexample:
  "resolve_event staked_svc odds_db demo_clock 1 ''team_a_won''
     = (Inr (), resolved_svc, resolved_db)
   \<and> map is_finished (events resolved_db) = [True]
   \<and> map result (events resolved_db) = [Some ''team_a_won'']
   \<and> map balance (users resolved_db) = [200, 100]
   \<and> fst (resolve_event resolved_svc resolved_db demo_clock 1 ''team_b_won'') = Inr ()
   \<and> map result
        (events (snd (snd (resolve_event resolved_svc resolved_db demo_clock 1 ''team_b_won''))))
        = [Some ''team_b_won'']
   \<and> map balance
        (users (snd (snd (resolve_event resolved_svc resolved_db demo_clock 1 ''team_b_won''))))
        = [200, 700]
   \<and> map balance
        (users (snd (snd (resolve_event resolved_svc resolved_db demo_clock 1 ''team_a_won''))))
        = [400, 100]"
  by (simp add: resolve_event_def scalar_one_or_none_def bets_of_event_def odds_db_def
        resolved_db_def resolved_svc_def staked_svc_def BettingService_init_def derby_def
        stake_a_def
        stake_b_def alice_def bob_def demo_clock_def Let_def)

text \<open>
  C3, amended. Once an event has been resolved (it is closed: inactive and finished), no
  later \<open>place_bet\<close>, \<open>withdraw_money\<close> or \<open>resolve_event\<close> of another event changes its
  row, so its result stays, or the rows of its bets, or pays anything on its bets: after
  such a call the service and the users are what they would be without these bets in
  the storage. A \<open>place_bet\<close> on it raises and leaves the storage as it was, and it stays
  closed under every sequence of calls. Only \<open>resolve_event\<close> on the event itself is not
  refused: applied to a finished event (one row, the winners' users present) it returns
  again, sets the result to the new actual result and credits every user the payouts of
  the bets that predict it.
\<close>

theorem resolved_event_fixed_until_resolved_again:
  "(event_closed db eid \<and> list_all (\<lambda>c. \<not> is_resolve_of eid c) others \<longrightarrow>
      filter (\<lambda>e. e_id e = eid) (events (snd (run (svc, db) others)))
        = filter (\<lambda>e. e_id e = eid) (events db)
      \<and> filter (\<lambda>b. event_id b = eid) (bets (snd (run (svc, db) others)))
        = filter (\<lambda>b. event_id b = eid) (bets db))
   \<and> (event_closed db eid \<and> \<not> is_resolve_of eid c \<longrightarrow>
      fst (step (svc, without_bets_of db eid) c) = fst (step (svc, db) c)
      \<and> users (snd (step (svc, without_bets_of db eid) c)) = users (snd (step (svc, db) c)))
   \<and> (event_closed db eid \<longrightarrow>
      event_closed (snd (run (svc, db) calls)) eid
      \<and> map e_id (events (snd (run (svc, db) calls))) = map e_id (events db))
   \<and> (event_closed db eid \<longrightarrow>
      (\<exists>e. fst (place_bet svc db now t_placed uid eid a outcome) = Inl e)
      \<and> snd (snd (place_bet svc db now t_placed uid eid a outcome)) = db)
   \<and> (filter (\<lambda>e. e_id e = eid) (events db) = [ev] \<and> is_finished ev
      \<and> (\<forall>b \<in> set (bets db). event_id b = eid \<and> predicted_outcome b = r
            \<longrightarrow> user_id b \<in> u_id ` set (users db)) \<longrightarrow>
      (\<exists>svc' db'. resolve_event svc db clock eid r = (Inr (), svc', db')
         \<and> filter (\<lambda>e. e_id e = eid) (events db')
             = [ev\<lparr>is_active := False, is_finished := True, result := Some r\<rparr>]
         \<and> users db'
             = map (\<lambda>u. u\<lparr>balance := balance u + winnings (bets_of_event db eid) r (u_id u)\<rparr>)
                 (users db)))"
proof (intro conjI impI)
  assume h: "event_closed db eid \<and> list_all (\<lambda>c. \<not> is_resolve_of eid c) others"
  then have c: "event_closed db eid" and n: "list_all (\<lambda>c. \<not> is_resolve_of eid c) others"
    by blast+
  from run_keeps_rows[OF c n, of svc]
  show "filter (\<lambda>e. e_id e = eid) (events (snd (run (svc, db) others)))
        = filter (\<lambda>e. e_id e = eid) (events db)"
    and "filter (\<lambda>b. event_id b = eid) (bets (snd (run (svc, db) others)))
        = filter (\<lambda>b. event_id b = eid) (bets db)"
    by blast+
next
  assume h: "event_closed db eid \<and> \<not> is_resolve_of eid c"
  then have c: "event_closed db eid" and n: "\<not> is_resolve_of eid c" by blast+
  from step_ignores_closed_bets[OF c n, of svc]
  show "fst (step (svc, without_bets_of db eid) c) = fst (step (svc, db) c)"
    and "users (snd (step (svc, without_bets_of db eid) c)) = users (snd (step (svc, db) c))"
    by blast+
next
  assume c: "event_closed db eid"
  from run_keeps_closed[OF c, of svc calls]
  show "event_closed (snd (run (svc, db) calls)) eid"
    and "map e_id (events (snd (run (svc, db) calls))) = map e_id (events db)"
    by simp_all
next
  assume c: "event_closed db eid"
  from place_bet_closed_event[OF c, of svc now t_placed uid a outcome]
  show "\<exists>e. fst (place_bet svc db now t_placed uid eid a outcome) = Inl e" .
  then obtain e where "fst (place_bet svc db now t_placed uid eid a outcome) = Inl e" ..
  from place_bet_Inl_frame[OF this]
  show "snd (snd (place_bet svc db now t_placed uid eid a outcome)) = db" by simp
next
  assume h: "filter (\<lambda>e. e_id e = eid) (events db) = [ev] \<and> is_finished ev
      \<and> (\<forall>b \<in> set (bets db). event_id b = eid \<and> predicted_outcome b = r
            \<longrightarrow> user_id b \<in> u_id ` set (users db))"
  then have f: "filter (\<lambda>e. e_id e = eid) (events db) = [ev]"
    and u: "\<forall>b \<in> set (bets db). event_id b = eid \<and> predicted_outcome b = r
            \<longrightarrow> user_id b \<in> u_id ` set (users db)"
    by blast+
  have k: "e_id (ev\<lparr>is_active := False, is_finished := True, result := Some r\<rparr>) = eid"
    using filter_singleton_key[OF f] by simp
  show "\<exists>svc' db'. resolve_event svc db clock eid r = (Inr (), svc', db')
         \<and> filter (\<lambda>e. e_id e = eid) (events db')
             = [ev\<lparr>is_active := False, is_finished := True, result := Some r\<rparr>]
         \<and> users db'
             = map (\<lambda>u. u\<lparr>balance := balance u + winnings (bets_of_event db eid) r (u_id u)\<rparr>)
                 (users db)"
    unfolding resolve_event_result[OF f u, of svc clock]
    using replace_by_key(1)[OF f k] by simp
qed

theorem resolved_event_fixed_until_resolved_again_witness:
  "event_closed two_event_db 1
   \<and> list_all (\<lambda>c. \<not> is_resolve_of 1 c) other_calls
   \<and> map balance (users (snd (run (two_event_svc, two_event_db) other_calls))) = [180, 200]
   \<and> map result
        (filter (\<lambda>e. e_id e = 1) (events (snd (run (two_event_svc, two_event_db) other_calls))))
        = [Some ''team_a_won'']
   \<and> map payout
        (filter (\<lambda>b. event_id b = 1) (bets (snd (run (two_event_svc, two_event_db) other_calls))))
        = [200, 0]
   \<and> users (snd (step (two_event_svc, without_bets_of two_event_db 1)
                   (ResolveEvent demo_clock 2 ''draw'')))
        = users (snd (step (two_event_svc, two_event_db) (ResolveEvent demo_clock 2 ''draw'')))
   \<and> event_closed (snd (run (two_event_svc, two_event_db) later_calls)) 1
   \<and> fst (place_bet two_event_svc two_event_db 2000 2001 1 1 10 ''draw'')
        = Inl (Exception ''Event is not active for betting'')
   \<and> snd (snd (place_bet two_event_svc two_event_db 2000 2001 1 1 10 ''draw'')) = two_event_db
   \<and> fst (resolve_event two_event_svc two_event_db demo_clock 1 ''team_b_won'') = Inr ()
   \<and> map result
        (filter (\<lambda>e. e_id e = 1)
          (events (snd (snd (resolve_event two_event_svc two_event_db demo_clock 1 ''team_b_won'')))))
        = [Some ''team_b_won'']
   \<and> map balance
        (users (snd (snd (resolve_event two_event_svc two_event_db demo_clock 1 ''team_b_won''))))
        = [200, 650]"
proof -
  let ?ev = "derby\<lparr>is_active := False, is_finished := True, result := Some ''team_a_won''\<rparr>"
  have c: "event_closed two_event_db 1"
    by (simp add: event_closed_def two_event_db_def derby_def final_ev_def)
  have n: "list_all (\<lambda>c. \<not> is_resolve_of 1 c) other_calls"
    "\<not> is_resolve_of 1 (ResolveEvent demo_clock 2 ''draw'')"
    by (simp_all add: other_calls_def)
  have f: "filter (\<lambda>e. e_id e = 1) (events two_event_db) = [?ev]" "is_finished ?ev"
    by (simp_all add: two_event_db_def derby_def final_ev_def)
  have fb: "map payout (filter (\<lambda>b. event_id b = 1) (bets two_event_db)) = [200, 0]"
    by (simp add: two_event_db_def stake_a_def stake_b_def stake_c_def)
  have u: "\<forall>b \<in> set (bets two_event_db). event_id b = 1 \<and> predicted_outcome b = ''team_b_won''
            \<longrightarrow> user_id b \<in> u_id ` set (users two_event_db)"
    by (simp add: two_event_db_def stake_a_def stake_b_def stake_c_def alice_def bob_def)
  have p: "fst (place_bet two_event_svc two_event_db 2000 2001 1 1 10 ''draw'')
        = Inl (Exception ''Event is not active for betting'')"
    by (simp add: place_bet_def check_lock_def scalar_one_or_none_def two_event_db_def
          two_event_svc_def BettingService_init_def alice_def bob_def derby_def final_ev_def)
  have w: "map (\<lambda>u. balance u + winnings (bets_of_event two_event_db 1) ''team_b_won'' (u_id u))
             (users two_event_db) = [200, 650]"
    by (simp add: winnings_def bets_of_event_def two_event_db_def stake_a_def stake_b_def
          stake_c_def alice_def bob_def)
  have b: "map balance (users (snd (run (two_event_svc, two_event_db) other_calls))) = [180, 200]"
    by (simp add: run_def other_calls_def place_bet_def check_lock_def scalar_one_or_none_def
          resolve_event_def withdraw_money_def two_event_db_def two_event_svc_def alice_def
          bob_def derby_def final_ev_def stake_a_def stake_b_def stake_c_def
          calculate_odds_based_on_bets_def bets_of_event_def Let_def BettingService_init_def
          autoincrement_def collect_outcome_stats_def add_bet_stat_def dict_contains_def
          dict_setitem_def dict_update_def outcome_odd_def backfill_def demo_clock_def)
  note t = resolved_event_fixed_until_resolved_again[of two_event_db 1 other_calls two_event_svc
      "ResolveEvent demo_clock 2 ''draw''" later_calls 2000 2001 1 10 "''draw''" ?ev
      "''team_b_won''" demo_clock]
  from t c n(1) have r1: "filter (\<lambda>e. e_id e = 1)
        (events (snd (run (two_event_svc, two_event_db) other_calls)))
        = filter (\<lambda>e. e_id e = 1) (events two_event_db)"
    and r2: "filter (\<lambda>b. event_id b = 1) (bets (snd (run (two_event_svc, two_event_db) other_calls)))
        = filter (\<lambda>b. event_id b = 1) (bets two_event_db)"
    by blast+
  from t c n(2) have r3: "users (snd (step (two_event_svc, without_bets_of two_event_db 1)
                   (ResolveEvent demo_clock 2 ''draw'')))
        = users (snd (step (two_event_svc, two_event_db) (ResolveEvent demo_clock 2 ''draw'')))"
    by blast
  from t c have c': "event_closed (snd (run (two_event_svc, two_event_db) later_calls)) 1"
    and d: "snd (snd (place_bet two_event_svc two_event_db 2000 2001 1 1 10 ''draw''))
        = two_event_db"
    by blast+
  from t f u obtain svc' db' where
    r: "resolve_event two_event_svc two_event_db demo_clock 1 ''team_b_won'' = (Inr (), svc', db')"
    and e: "filter (\<lambda>e. e_id e = 1) (events db')
             = [?ev\<lparr>is_active := False, is_finished := True, result := Some ''team_b_won''\<rparr>]"
    and us: "users db'
             = map (\<lambda>u. u\<lparr>balance := balance u
                       + winnings (bets_of_event two_event_db 1) ''team_b_won'' (u_id u)\<rparr>)
                 (users two_event_db)"
    by blast
  from us have "map balance (users db')
      = map (\<lambda>u. balance u + winnings (bets_of_event two_event_db 1) ''team_b_won'' (u_id u))
          (users two_event_db)"
    by (simp add: comp_def)
  with w have bl: "map balance (users db') = [200, 650]" by simp
  from r1 f(1) have r1': "map result (filter (\<lambda>e. e_id e = 1)
        (events (snd (run (two_event_svc, two_event_db) other_calls)))) = [Some ''team_a_won'']"
    by simp
  from r2 fb have r2': "map payout (filter (\<lambda>b. event_id b = 1)
        (bets (snd (run (two_event_svc, two_event_db) other_calls)))) = [200, 0]"
    by simp
  show ?thesis
    using c n(1) b r1' r2' r3 c' p d e bl by (simp add: r)
qed

section \<open>Claims about the admin dashboard\<close>

text \<open>
  C9. The claim is that the dashboard summary returns the counts and sums of the storage
  merged with the analytics snapshot (\<open>dashboard_summary\<close>). The code never gets there:
  line 24 evaluates the name \<open>sqlalchemy\<close>, which the module does not bind, so every
  call of \<open>get_admin_dashboard\<close> raises \<open>NameError\<close>, for every service and storage.
\<close>

theorem get_admin_dashboard_raises_NameError:
  "get_admin_dashboard svc db = Inl (NameError ''sqlalchemy'')
   \<and> get_admin_dashboard svc db \<noteq> Inr (dashboard_summary svc db)"
  by (simp add: get_admin_dashboard_def load_name_def dashboard_module_names_def)


end
